theory Spec2Isabelle
  imports Complex_Main "HOL-Library.Word" "HOL-Library.Monad_Syntax"
begin

section \<open>Memory\<close>

text \<open>
  The kernels of \<^verbatim>\<open>dsp_fp_vector.c\<close> take raw pointers, and nothing in their
  signatures keeps two of them apart, so a buffer is not a value here: it is a base address
  into one store of cells, and \<^verbatim>\<open>p[i]\<close> is the cell at \<open>p + i\<close>. A cell that was
  never allocated holds \<open>None\<close>; reading or writing it is the undefined behaviour of an
  undersized buffer, and the call then yields \<open>None\<close>.
\<close>

type_synonym addr = nat

type_synonym 'v heap = "addr \<Rightarrow> 'v option"

definition load :: "'v heap \<Rightarrow> addr \<Rightarrow> 'v option" where
  "load h p = h p"

definition store :: "'v heap \<Rightarrow> addr \<Rightarrow> 'v \<Rightarrow> 'v heap option" where
  "store h p v = (case h p of None \<Rightarrow> None | Some old \<Rightarrow> Some (h(p \<mapsto> v)))"

text \<open>\<^verbatim>\<open>p[i]\<close> for an \<^verbatim>\<open>unsigned\<close> index: the address of element \<open>i\<close> of the array at \<open>p\<close>.\<close>

definition idx :: "addr \<Rightarrow> 32 word \<Rightarrow> addr" where
  "idx p i = p + unat i"

text \<open>
  Modelled from the spec: the type \<^verbatim>\<open>dsp_complex_float_t\<close> is declared in
  \<^verbatim>\<open>dsp_complex.h\<close>, which is not among the sources; the spec gives it as a pair
  of double-precision fields, real component first. The kernel reaches the fields as
  \<^verbatim>\<open>.re\<close> and \<^verbatim>\<open>.im\<close>.
\<close>

record 'v dsp_complex_float_t =
  re :: 'v
  im :: 'v

text \<open>Assignment to one field of the structure at \<open>p\<close>; the other field keeps its value.\<close>

definition store_re :: "'v dsp_complex_float_t heap \<Rightarrow> addr \<Rightarrow> 'v \<Rightarrow> 'v dsp_complex_float_t heap option" where
  "store_re h p v = (case h p of None \<Rightarrow> None | Some old \<Rightarrow> Some (h(p \<mapsto> old\<lparr>re := v\<rparr>)))"

definition store_im :: "'v dsp_complex_float_t heap \<Rightarrow> addr \<Rightarrow> 'v \<Rightarrow> 'v dsp_complex_float_t heap option" where
  "store_im h p v = (case h p of None \<Rightarrow> None | Some old \<Rightarrow> Some (h(p \<mapsto> old\<lparr>im := v\<rparr>)))"

section \<open>The counting loop\<close>

text \<open>
  All four kernels share one loop header,
  \<^verbatim>\<open>for (unsigned i=0;i<length;i++)\<close>, over 32-bit unsigned values. The counter is
  a word; the body is run on the store and may fail.
\<close>

function for_loop :: "(32 word \<Rightarrow> 's \<Rightarrow> 's option) \<Rightarrow> 32 word \<Rightarrow> 32 word \<Rightarrow> 's \<Rightarrow> 's option" where
  "for_loop body len i s =
     (if i < len
      then (case body i s of None \<Rightarrow> None | Some s' \<Rightarrow> for_loop body len (i + 1) s')
      else Some s)"
  by pat_completeness auto
termination
proof (relation "measure (\<lambda>(body, len, i, s). unat len - unat i)")
  show "wf (measure (\<lambda>(body :: 32 word \<Rightarrow> 's \<Rightarrow> 's option, len :: 32 word, i :: 32 word, s :: 's). unat len - unat i))"
    by simp
next
  fix body :: "32 word \<Rightarrow> 's \<Rightarrow> 's option" and len i :: "32 word" and s x2 :: 's
  assume lt: "i < len"
  then have "i + 1 \<noteq> 0"
    by unat_arith
  then have "unat (i + 1) = Suc (unat i)"
    by (simp add: add.commute unatSuc)
  moreover from lt have "unat i < unat len"
    by (simp add: word_less_nat_alt)
  ultimately show "((body, len, i + 1, x2), (body, len, i, s)) \<in> measure (\<lambda>(body, len, i, s). unat len - unat i)"
    by simp
qed

declare for_loop.simps [simp del]

section \<open>The kernels\<close>

text \<open>
  \<^verbatim>\<open>double\<close> samples are values of a type \<open>'v\<close> with the three operators the code
  applies to them, and each operator of the source is one operation on that type. Nothing
  else is assumed of the arithmetic, so what is proved of these definitions holds whatever
  \<open>+\<close>, \<open>-\<close> and \<open>*\<close> do on samples, rounding included. The first pointer is written,
  the other two are read.
\<close>

definition dsp_sub_vect_float :: "addr \<Rightarrow> addr \<Rightarrow> addr \<Rightarrow> 32 word \<Rightarrow> ('v::minus) heap \<Rightarrow> 'v heap option" where
  "dsp_sub_vect_float a b c len h =
     for_loop (\<lambda>i h. do {
         x \<leftarrow> load h (idx b i);
         y \<leftarrow> load h (idx c i);
         store h (idx a i) (x - y)
       }) len 0 h"

definition dsp_add_vect_float :: "addr \<Rightarrow> addr \<Rightarrow> addr \<Rightarrow> 32 word \<Rightarrow> ('v::plus) heap \<Rightarrow> 'v heap option" where
  "dsp_add_vect_float a b c len h =
     for_loop (\<lambda>i h. do {
         x \<leftarrow> load h (idx b i);
         y \<leftarrow> load h (idx c i);
         store h (idx a i) (x + y)
       }) len 0 h"

definition dsp_mul_vect_float :: "addr \<Rightarrow> addr \<Rightarrow> addr \<Rightarrow> 32 word \<Rightarrow> ('v::times) heap \<Rightarrow> 'v heap option" where
  "dsp_mul_vect_float a b c len h =
     for_loop (\<lambda>i h. do {
         x \<leftarrow> load h (idx b i);
         y \<leftarrow> load h (idx c i);
         store h (idx a i) (x * y)
       }) len 0 h"

text \<open>
  The complex kernel has two statements in its body. The second one reads
  \<^verbatim>\<open>b[i]\<close> and \<^verbatim>\<open>c[i]\<close> again, from the store as the first one left it.
\<close>

definition dsp_mul_vect_complex_float ::
  "addr \<Rightarrow> addr \<Rightarrow> addr \<Rightarrow> 32 word \<Rightarrow> ('v::{plus,minus,times}) dsp_complex_float_t heap
     \<Rightarrow> 'v dsp_complex_float_t heap option" where
  "dsp_mul_vect_complex_float a b c len h =
     for_loop (\<lambda>i h. do {
         bi \<leftarrow> load h (idx b i);
         ci \<leftarrow> load h (idx c i);
         h1 \<leftarrow> store_re h (idx a i) (re bi * re ci - im bi * im ci);
         bi' \<leftarrow> load h1 (idx b i);
         ci' \<leftarrow> load h1 (idx c i);
         store_im h1 (idx a i) (re bi' * im ci' + im bi' * re ci')
       }) len 0 h"

section \<open>Contracted evaluation\<close>

text \<open>
  The definitions above take each \<open>*\<close>, \<open>+\<close> and \<open>-\<close> of the source as one operation
  with one result. ISO C does not oblige a compiler to: a floating expression may be
  contracted, and a build for a machine with a fused multiply-add evaluates
  \<^verbatim>\<open>x*y + z*w\<close> as \<^verbatim>\<open>fma(x, y, z*w)\<close>, rounding the second product and the final sum
  but not the first product. The source is silent on it (no pragma), so this is the
  complex kernel as such a build runs it, over the rounded product \<open>mul\<close>, the fused
  operation \<open>fma\<close> and the negation \<open>neg\<close> of the machine.
\<close>

definition dsp_mul_vect_complex_float_fma ::
  "('v \<Rightarrow> 'v \<Rightarrow> 'v) \<Rightarrow> ('v \<Rightarrow> 'v \<Rightarrow> 'v \<Rightarrow> 'v) \<Rightarrow> ('v \<Rightarrow> 'v)
     \<Rightarrow> addr \<Rightarrow> addr \<Rightarrow> addr \<Rightarrow> 32 word \<Rightarrow> 'v dsp_complex_float_t heap
     \<Rightarrow> 'v dsp_complex_float_t heap option" where
  "dsp_mul_vect_complex_float_fma mul fma neg a b c len h =
     for_loop (\<lambda>i h. do {
         bi \<leftarrow> load h (idx b i);
         ci \<leftarrow> load h (idx c i);
         h1 \<leftarrow> store_re h (idx a i) (fma (re bi) (re ci) (neg (mul (im bi) (im ci))));
         bi' \<leftarrow> load h1 (idx b i);
         ci' \<leftarrow> load h1 (idx c i);
         store_im h1 (idx a i) (fma (re bi') (im ci') (mul (im bi') (re ci')))
       }) len 0 h"

text \<open>
  IEEE 754 binary64, the \<^verbatim>\<open>double\<close> of the usual targets, on samples whose value is an
  integer: a result is rounded to 53 significant bits, to nearest, ties to the even
  significand. \<open>excess m\<close> is the number of low bits of the magnitude \<open>m\<close> that do not fit.
  Sums and products of integers are integers, so such samples stay among themselves;
  magnitudes are taken to be below the overflow threshold \<open>2 ^ 1024\<close>.
\<close>

function excess :: "int \<Rightarrow> nat" where
  "excess m = (if m < 9007199254740992 then 0 else Suc (excess (m div 2)))"
  by pat_completeness auto
termination
  by (relation "measure nat") auto

declare excess.simps [simp del]

definition rne53_mag :: "int \<Rightarrow> int" where
  "rne53_mag m =
     (let k = excess m; q = m div 2 ^ k; r = m mod 2 ^ k
      in if 2 * r < 2 ^ k \<or> (2 * r = 2 ^ k \<and> even q) then q * 2 ^ k else (q + 1) * 2 ^ k)"

definition rne53 :: "int \<Rightarrow> int" where
  "rne53 x = (if x < 0 then - rne53_mag (- x) else rne53_mag x)"

definition b64_mul :: "int \<Rightarrow> int \<Rightarrow> int" where
  "b64_mul x y = rne53 (x * y)"

definition b64_fma :: "int \<Rightarrow> int \<Rightarrow> int \<Rightarrow> int" where
  "b64_fma x y z = rne53 (x * y + z)"

section \<open>Buffers and their contents\<close>

text \<open>
  \<open>holds h p xs\<close>: the buffer at \<open>p\<close> has at least \<open>length xs\<close> allocated elements
  and they are, in order, the elements of \<open>xs\<close>.
\<close>

fun holds :: "'v heap \<Rightarrow> addr \<Rightarrow> 'v list \<Rightarrow> bool" where
  "holds h p [] = True"
| "holds h p (x # xs) = (h p = Some x \<and> holds h (Suc p) xs)"

text \<open>Two buffers of \<open>len\<close> elements that share no cell.\<close>

definition disjoint_bufs :: "addr \<Rightarrow> addr \<Rightarrow> 32 word \<Rightarrow> bool" where
  "disjoint_bufs p q len = (p + unat len \<le> q \<or> q + unat len \<le> p)"

text \<open>
  The element at \<open>p\<close> once a call has returned; \<open>None\<close> when the call did not return a
  store, or the cell is not allocated.
\<close>

definition peek :: "'v heap option \<Rightarrow> addr \<Rightarrow> 'v option" where
  "peek r p = (case r of None \<Rightarrow> None | Some h \<Rightarrow> h p)"

section \<open>Reasoning about the loop\<close>

lemma word_succ: "i < len \<Longrightarrow> unat (i + 1) = Suc (unat i)" for i len :: "32 word"
proof -
  assume "i < len"
  then have "i + 1 \<noteq> 0" by unat_arith
  then show ?thesis by (simp add: add.commute unatSuc)
qed

lemma holds_nth: "holds h p xs \<longleftrightarrow> (\<forall>k < length xs. h (p + k) = Some (xs ! k))"
proof (induction xs arbitrary: p)
  case Nil
  then show ?case by simp
next
  case (Cons x xs)
  show ?case
  proof
    assume a: "holds h p (x # xs)"
    show "\<forall>k<length (x # xs). h (p + k) = Some ((x # xs) ! k)"
    proof (intro allI impI)
      fix k assume "k < length (x # xs)"
      then show "h (p + k) = Some ((x # xs) ! k)"
        using a Cons.IH[of "Suc p"] by (cases k) auto
    qed
  next
    assume a: "\<forall>k<length (x # xs). h (p + k) = Some ((x # xs) ! k)"
    then have "h p = Some x" by fastforce
    moreover have "\<forall>k<length xs. h (Suc p + k) = Some (xs ! k)"
      using a by fastforce
    ultimately show "holds h p (x # xs)"
      using Cons.IH[of "Suc p"] by simp
  qed
qed

lemma for_loop_from:
  "(\<And>k s. k < unat len \<Longrightarrow> I k s \<Longrightarrow> \<exists>s'. body (of_nat k) s = Some s' \<and> I (Suc k) s')
    \<Longrightarrow> i \<le> len \<Longrightarrow> I (unat i) s \<Longrightarrow> \<exists>s'. for_loop body len i s = Some s' \<and> I (unat len) s'"
proof (induction body len i s rule: for_loop.induct)
  case (1 body len i s)
  show ?case
  proof (cases "i < len")
    case True
    then have k: "unat i < unat len" by (simp add: word_less_nat_alt)
    from "1.prems"(1)[OF k] "1.prems"(3) obtain s' where
      s': "body i s = Some s'" and inv: "I (Suc (unat i)) s'" by auto
    have suc: "unat (i + 1) = Suc (unat i)" using True by (rule word_succ)
    have le: "i + 1 \<le> len" using True by unat_arith
    from "1.IH"[OF True s' "1.prems"(1) le] inv suc
    obtain t where "for_loop body len (i + 1) s' = Some t" "I (unat len) t" by auto
    then show ?thesis using True s' by (subst for_loop.simps) simp
  next
    case False
    with "1.prems"(2) have "i = len" by simp
    then show ?thesis using "1.prems"(3) by (subst for_loop.simps) simp
  qed
qed

lemma for_loop_rule:
  assumes "I 0 s"
    and "\<And>k s. k < unat len \<Longrightarrow> I k s \<Longrightarrow> \<exists>s'. body (of_nat k) s = Some s' \<and> I (Suc k) s'"
  shows "\<exists>s'. for_loop body len 0 s = Some s' \<and> I (unat len) s'"
  using for_loop_from[of len I body 0 s] assms by simp

section \<open>What one call leaves in the store\<close>

text \<open>
  The three real kernels differ in the operator only. Provided no write to \<open>a[k]\<close> lands
  on an input element that a later iteration still has to read (the output starts at or
  before each input, or past its end), the store after the call is the store before it with
  the first \<open>n\<close> output elements replaced.
\<close>

lemma idx_of_nat: "k < unat (len :: 32 word) \<Longrightarrow> idx p (of_nat k) = p + k"
proof -
  assume "k < unat len"
  then have "k \<le> unat len" by simp
  then have "unat (of_nat k :: 32 word) = k" by (rule le_unat_uoi)
  then show ?thesis by (simp add: idx_def)
qed

lemma binop_loop:
  fixes f :: "'v \<Rightarrow> 'v \<Rightarrow> 'v"
  assumes hb: "holds h b bs" and hc: "holds h c cs" and ha: "holds h a as"
    and lb: "unat n \<le> length bs" and lc: "unat n \<le> length cs" and la: "unat n \<le> length as"
    and sb: "a \<le> b \<or> b + unat n \<le> a" and sc: "a \<le> c \<or> c + unat n \<le> a"
  shows "\<exists>h'. for_loop (\<lambda>i h. do {
             x \<leftarrow> load h (idx b i);
             y \<leftarrow> load h (idx c i);
             store h (idx a i) (f x y)
           }) n 0 h = Some h'
         \<and> (\<forall>p. h' p = (if a \<le> p \<and> p < a + unat n
                         then Some (f (bs ! (p - a)) (cs ! (p - a))) else h p))"
proof (rule for_loop_rule[where I = "\<lambda>k s. \<forall>p. s p = (if a \<le> p \<and> p < a + k
                         then Some (f (bs ! (p - a)) (cs ! (p - a))) else h p)"])
  show "\<forall>p. h p = (if a \<le> p \<and> p < a + 0 then Some (f (bs ! (p - a)) (cs ! (p - a))) else h p)"
    by auto
next
  fix k s
  assume k: "k < unat n"
    and inv: "\<forall>p. s p = (if a \<le> p \<and> p < a + k then Some (f (bs ! (p - a)) (cs ! (p - a))) else h p)"
  have rb: "s (b + k) = Some (bs ! k)"
  proof -
    have "\<not> (a \<le> b + k \<and> b + k < a + k)" using sb k by auto
    with spec[OF inv, of "b + k"] have "s (b + k) = h (b + k)" by (simp only: if_False)
    then show ?thesis using hb lb k by (simp add: holds_nth)
  qed
  have rc: "s (c + k) = Some (cs ! k)"
  proof -
    have "\<not> (a \<le> c + k \<and> c + k < a + k)" using sc k by auto
    with spec[OF inv, of "c + k"] have "s (c + k) = h (c + k)" by (simp only: if_False)
    then show ?thesis using hc lc k by (simp add: holds_nth)
  qed
  have ra: "s (a + k) = Some (as ! k)"
  proof -
    have "s (a + k) = h (a + k)" using spec[OF inv, of "a + k"] by simp
    then show ?thesis using ha la k by (simp add: holds_nth)
  qed
  let ?s' = "s(a + k \<mapsto> f (bs ! k) (cs ! k))"
  have run: "do {
             x \<leftarrow> load s (idx b (of_nat k));
             y \<leftarrow> load s (idx c (of_nat k));
             store s (idx a (of_nat k)) (f x y)
           } = Some ?s'"
    using rb rc ra by (simp add: idx_of_nat[OF k] load_def store_def)
  have "\<forall>p. ?s' p = (if a \<le> p \<and> p < a + Suc k then Some (f (bs ! (p - a)) (cs ! (p - a))) else h p)"
    using inv by auto
  with run show "\<exists>s'. do {
             x \<leftarrow> load s (idx b (of_nat k));
             y \<leftarrow> load s (idx c (of_nat k));
             store s (idx a (of_nat k)) (f x y)
           } = Some s' \<and> (\<forall>p. s' p = (if a \<le> p \<and> p < a + Suc k then Some (f (bs ! (p - a)) (cs ! (p - a))) else h p))"
    by blast
qed

lemma sub_result:
  assumes "holds h b bs" and "holds h c cs" and "holds h a as"
    and "unat n \<le> length bs" and "unat n \<le> length cs" and "unat n \<le> length as"
    and "a \<le> b \<or> b + unat n \<le> a" and "a \<le> c \<or> c + unat n \<le> a"
  shows "\<exists>h'. dsp_sub_vect_float a b c n h = Some h'
         \<and> (\<forall>p. h' p = (if a \<le> p \<and> p < a + unat n
                         then Some (bs ! (p - a) - cs ! (p - a)) else h p))"
  unfolding dsp_sub_vect_float_def using assms by (rule binop_loop[where f = "(-)"])

lemma add_result:
  assumes "holds h b bs" and "holds h c cs" and "holds h a as"
    and "unat n \<le> length bs" and "unat n \<le> length cs" and "unat n \<le> length as"
    and "a \<le> b \<or> b + unat n \<le> a" and "a \<le> c \<or> c + unat n \<le> a"
  shows "\<exists>h'. dsp_add_vect_float a b c n h = Some h'
         \<and> (\<forall>p. h' p = (if a \<le> p \<and> p < a + unat n
                         then Some (bs ! (p - a) + cs ! (p - a)) else h p))"
  unfolding dsp_add_vect_float_def using assms by (rule binop_loop[where f = "(+)"])

lemma mul_result:
  assumes "holds h b bs" and "holds h c cs" and "holds h a as"
    and "unat n \<le> length bs" and "unat n \<le> length cs" and "unat n \<le> length as"
    and "a \<le> b \<or> b + unat n \<le> a" and "a \<le> c \<or> c + unat n \<le> a"
  shows "\<exists>h'. dsp_mul_vect_float a b c n h = Some h'
         \<and> (\<forall>p. h' p = (if a \<le> p \<and> p < a + unat n
                         then Some (bs ! (p - a) * cs ! (p - a)) else h p))"
  unfolding dsp_mul_vect_float_def using assms by (rule binop_loop[where f = "(*)"])

text \<open>
  The complex kernel under the same proviso. Where the output is one of the inputs, the
  second statement finds the real field of that input already replaced by the new real
  part \<open>r\<close>.
\<close>

lemma cmul_loop:
  fixes h :: "('v::{plus,minus,times}) dsp_complex_float_t heap"
  assumes hb: "holds h b bs" and hc: "holds h c cs" and ha: "holds h a as"
    and lb: "unat n \<le> length bs" and lc: "unat n \<le> length cs" and la: "unat n \<le> length as"
    and sb: "a \<le> b \<or> b + unat n \<le> a" and sc: "a \<le> c \<or> c + unat n \<le> a"
  defines "out \<equiv> \<lambda>x y. (let r = re x * re y - im x * im y in
             \<lparr>re = r, im = (if a = b then r else re x) * im y + im x * (if a = c then r else re y)\<rparr>)"
  shows "\<exists>h'. dsp_mul_vect_complex_float a b c n h = Some h'
         \<and> (\<forall>p. h' p = (if a \<le> p \<and> p < a + unat n
                         then Some (out (bs ! (p - a)) (cs ! (p - a))) else h p))"
  unfolding dsp_mul_vect_complex_float_def
proof (rule for_loop_rule[where I = "\<lambda>k s. \<forall>p. s p = (if a \<le> p \<and> p < a + k
                         then Some (out (bs ! (p - a)) (cs ! (p - a))) else h p)"])
  show "\<forall>p. h p = (if a \<le> p \<and> p < a + 0 then Some (out (bs ! (p - a)) (cs ! (p - a))) else h p)"
    by auto
next
  fix k s
  assume k: "k < unat n"
    and inv: "\<forall>p. s p = (if a \<le> p \<and> p < a + k then Some (out (bs ! (p - a)) (cs ! (p - a))) else h p)"
  have rb: "s (b + k) = Some (bs ! k)"
  proof -
    have "\<not> (a \<le> b + k \<and> b + k < a + k)" using sb k by auto
    with spec[OF inv, of "b + k"] have "s (b + k) = h (b + k)" by (simp only: if_False)
    then show ?thesis using hb lb k by (simp add: holds_nth)
  qed
  have rc: "s (c + k) = Some (cs ! k)"
  proof -
    have "\<not> (a \<le> c + k \<and> c + k < a + k)" using sc k by auto
    with spec[OF inv, of "c + k"] have "s (c + k) = h (c + k)" by (simp only: if_False)
    then show ?thesis using hc lc k by (simp add: holds_nth)
  qed
  have ra: "s (a + k) = Some (as ! k)"
  proof -
    have "s (a + k) = h (a + k)" using spec[OF inv, of "a + k"] by simp
    then show ?thesis using ha la k by (simp add: holds_nth)
  qed
  define r where "r = re (bs ! k) * re (cs ! k) - im (bs ! k) * im (cs ! k)"
  define h1 where "h1 = s(a + k \<mapsto> (as ! k)\<lparr>re := r\<rparr>)"
  have b1: "h1 (b + k) = Some ((bs ! k)\<lparr>re := (if a = b then r else re (bs ! k))\<rparr>)"
  proof (cases "a = b")
    case True
    with ra rb have "as ! k = bs ! k" by simp
    with True show ?thesis by (simp add: h1_def)
  next
    case False
    with rb show ?thesis by (simp add: h1_def)
  qed
  have c1: "h1 (c + k) = Some ((cs ! k)\<lparr>re := (if a = c then r else re (cs ! k))\<rparr>)"
  proof (cases "a = c")
    case True
    with ra rc have "as ! k = cs ! k" by simp
    with True show ?thesis by (simp add: h1_def)
  next
    case False
    with rc show ?thesis by (simp add: h1_def)
  qed
  have a1: "h1 (a + k) = Some ((as ! k)\<lparr>re := r\<rparr>)"
    by (simp add: h1_def)
  let ?s' = "s(a + k \<mapsto> out (bs ! k) (cs ! k))"
  let ?body = "\<lambda>i h. do {
         bi \<leftarrow> load h (idx b i);
         ci \<leftarrow> load h (idx c i);
         h1 \<leftarrow> store_re h (idx a i) (re bi * re ci - im bi * im ci);
         bi' \<leftarrow> load h1 (idx b i);
         ci' \<leftarrow> load h1 (idx c i);
         store_im h1 (idx a i) (re bi' * im ci' + im bi' * re ci')
       }"
  have first: "store_re s (a + k) r = Some h1"
    using ra by (simp add: store_re_def h1_def)
  have second: "store_im h1 (a + k) v = Some (s(a + k \<mapsto> \<lparr>re = r, im = v\<rparr>))" for v
    using a1 by (cases "as ! k") (simp add: store_im_def h1_def)
  have run: "?body (of_nat k) s = Some ?s'"
    using rb rc first b1 c1
    by (simp add: idx_of_nat[OF k] load_def second r_def[symmetric] out_def Let_def)
  have "\<forall>p. ?s' p = (if a \<le> p \<and> p < a + Suc k then Some (out (bs ! (p - a)) (cs ! (p - a))) else h p)"
    using inv by auto
  with run show "\<exists>s'. ?body (of_nat k) s = Some s' \<and> (\<forall>p. s' p = (if a \<le> p \<and> p < a + Suc k then Some (out (bs ! (p - a)) (cs ! (p - a))) else h p))"
    by blast
qed

section \<open>What one call leaves alone\<close>

text \<open>
  With no proviso on how the three buffers lie: a call on allocated buffers returns, frees
  and allocates nothing, and changes no cell outside the first \<open>n\<close> elements of its output.
\<close>

lemma holds_allocated: "holds h p xs \<Longrightarrow> k < length xs \<Longrightarrow> h (p + k) \<noteq> None"
  by (simp add: holds_nth)

lemma binop_frame:
  fixes f :: "'v \<Rightarrow> 'v \<Rightarrow> 'v"
  assumes hb: "holds h b bs" and hc: "holds h c cs" and ha: "holds h a as"
    and lb: "unat n \<le> length bs" and lc: "unat n \<le> length cs" and la: "unat n \<le> length as"
  shows "\<exists>h'. for_loop (\<lambda>i h. do {
             x \<leftarrow> load h (idx b i);
             y \<leftarrow> load h (idx c i);
             store h (idx a i) (f x y)
           }) n 0 h = Some h'
         \<and> (\<forall>p. (h' p = None) = (h p = None))
         \<and> (\<forall>p. p < a \<or> a + unat n \<le> p \<longrightarrow> h' p = h p)"
proof -
  let ?body = "\<lambda>i h. do {
             x \<leftarrow> load h (idx b i);
             y \<leftarrow> load h (idx c i);
             store h (idx a i) (f x y)
           }"
  let ?I = "\<lambda>k s. (\<forall>p. (s p = None) = (h p = None)) \<and> (\<forall>p. p < a \<or> a + k \<le> p \<longrightarrow> s p = h p)"
  have "\<exists>h'. for_loop ?body n 0 h = Some h' \<and> ?I (unat n) h'"
  proof (rule for_loop_rule[where I = ?I])
    show "?I 0 h" by simp
  next
    fix k s
    assume k: "k < unat n" and inv: "?I k s"
    from inv have dom: "\<And>p. (s p = None) = (h p = None)" by blast
    have live: "\<exists>v. s (q + k) = Some v" if "holds h q xs" and "unat n \<le> length xs" for q xs
    proof -
      from that(2) k have "k < length xs" by (rule less_le_trans[rotated])
      with that(1) have "h (q + k) \<noteq> None" by (rule holds_allocated)
      then have "s (q + k) \<noteq> None" by (simp add: dom)
      then show ?thesis by blast
    qed
    from live[OF hb lb] obtain x where x: "s (b + k) = Some x" by blast
    from live[OF hc lc] obtain y where y: "s (c + k) = Some y" by blast
    from live[OF ha la] obtain z where z: "s (a + k) = Some z" by blast
    have run: "?body (of_nat k) s = Some (s(a + k \<mapsto> f x y))"
      using x y z by (simp add: idx_of_nat[OF k] load_def store_def)
    have "?I (Suc k) (s(a + k \<mapsto> f x y))"
      using inv z by auto
    with run show "\<exists>s'. ?body (of_nat k) s = Some s' \<and> ?I (Suc k) s'" by blast
  qed
  then show ?thesis by blast
qed

lemma cmul_frame:
  fixes h :: "('v::{plus,minus,times}) dsp_complex_float_t heap"
  assumes hb: "holds h b bs" and hc: "holds h c cs" and ha: "holds h a as"
    and lb: "unat n \<le> length bs" and lc: "unat n \<le> length cs" and la: "unat n \<le> length as"
  shows "\<exists>h'. dsp_mul_vect_complex_float a b c n h = Some h'
         \<and> (\<forall>p. (h' p = None) = (h p = None))
         \<and> (\<forall>p. p < a \<or> a + unat n \<le> p \<longrightarrow> h' p = h p)"
proof -
  let ?body = "\<lambda>i h. do {
         bi \<leftarrow> load h (idx b i);
         ci \<leftarrow> load h (idx c i);
         h1 \<leftarrow> store_re h (idx a i) (re bi * re ci - im bi * im ci);
         bi' \<leftarrow> load h1 (idx b i);
         ci' \<leftarrow> load h1 (idx c i);
         store_im h1 (idx a i) (re bi' * im ci' + im bi' * re ci')
       }"
  let ?I = "\<lambda>k s. (\<forall>p. (s p = None) = (h p = None)) \<and> (\<forall>p. p < a \<or> a + k \<le> p \<longrightarrow> s p = h p)"
  have "\<exists>h'. for_loop ?body n 0 h = Some h' \<and> ?I (unat n) h'"
  proof (rule for_loop_rule[where I = ?I])
    show "?I 0 h" by simp
  next
    fix k s
    assume k: "k < unat n" and inv: "?I k s"
    from inv have dom: "\<And>p. (s p = None) = (h p = None)" by blast
    have live: "\<exists>v. s (q + k) = Some v" if "holds h q xs" and "unat n \<le> length xs" for q xs
    proof -
      from that(2) k have "k < length xs" by (rule less_le_trans[rotated])
      with that(1) have "h (q + k) \<noteq> None" by (rule holds_allocated)
      then have "s (q + k) \<noteq> None" by (simp add: dom)
      then show ?thesis by blast
    qed
    from live[OF hb lb] obtain x where x: "s (b + k) = Some x" by blast
    from live[OF hc lc] obtain y where y: "s (c + k) = Some y" by blast
    from live[OF ha la] obtain z where z: "s (a + k) = Some z" by blast
    define h1 where "h1 = s(a + k \<mapsto> z\<lparr>re := re x * re y - im x * im y\<rparr>)"
    have first: "store_re s (a + k) (re x * re y - im x * im y) = Some h1"
      using z by (simp add: store_re_def h1_def)
    obtain x' where x': "h1 (b + k) = Some x'" using x by (cases "a = b") (auto simp: h1_def)
    obtain y' where y': "h1 (c + k) = Some y'" using y by (cases "a = c") (auto simp: h1_def)
    obtain z' where z': "h1 (a + k) = Some z'" by (simp add: h1_def)
    define s' where "s' = h1(a + k \<mapsto> z'\<lparr>im := re x' * im y' + im x' * re y'\<rparr>)"
    have run: "?body (of_nat k) s = Some s'"
      using x y first x' y' z' by (simp add: idx_of_nat[OF k] load_def store_im_def s'_def)
    have "?I (Suc k) s'"
      using inv z by (auto simp: s'_def h1_def)
    with run show "\<exists>s'. ?body (of_nat k) s = Some s' \<and> ?I (Suc k) s'" by blast
  qed
  then show ?thesis by (simp add: dsp_mul_vect_complex_float_def)
qed

lemma sub_frame:
  assumes "holds h b bs" and "holds h c cs" and "holds h a as"
    and "unat n \<le> length bs" and "unat n \<le> length cs" and "unat n \<le> length as"
  shows "\<exists>h'. dsp_sub_vect_float a b c n h = Some h'
         \<and> (\<forall>p. (h' p = None) = (h p = None))
         \<and> (\<forall>p. p < a \<or> a + unat n \<le> p \<longrightarrow> h' p = h p)"
  unfolding dsp_sub_vect_float_def using assms by (rule binop_frame[where f = "(-)"])

lemma add_frame:
  assumes "holds h b bs" and "holds h c cs" and "holds h a as"
    and "unat n \<le> length bs" and "unat n \<le> length cs" and "unat n \<le> length as"
  shows "\<exists>h'. dsp_add_vect_float a b c n h = Some h'
         \<and> (\<forall>p. (h' p = None) = (h p = None))
         \<and> (\<forall>p. p < a \<or> a + unat n \<le> p \<longrightarrow> h' p = h p)"
  unfolding dsp_add_vect_float_def using assms by (rule binop_frame[where f = "(+)"])

lemma mul_frame:
  assumes "holds h b bs" and "holds h c cs" and "holds h a as"
    and "unat n \<le> length bs" and "unat n \<le> length cs" and "unat n \<le> length as"
  shows "\<exists>h'. dsp_mul_vect_float a b c n h = Some h'
         \<and> (\<forall>p. (h' p = None) = (h p = None))
         \<and> (\<forall>p. p < a \<or> a + unat n \<le> p \<longrightarrow> h' p = h p)"
  unfolding dsp_mul_vect_float_def using assms by (rule binop_frame[where f = "(*)"])

section \<open>How the buffers lie\<close>

lemma same_or_disjoint: "a = b \<or> disjoint_bufs a b n \<Longrightarrow> a \<le> b \<or> b + unat n \<le> a"
  by (auto simp: disjoint_bufs_def)


lemma disjoint_safe: "disjoint_bufs a b n \<Longrightarrow> a \<le> b \<or> b + unat n \<le> a"
  by (auto simp: disjoint_bufs_def)

section \<open>Swapping the two inputs\<close>

text \<open>
  Where the multiplication (and, for the complex kernel, the addition) of samples is
  commutative, exchanging \<open>b\<close> and \<open>c\<close> does not change what a multiply kernel does to
  any store, aliased or not.
\<close>

lemma mul_swap:
  fixes h :: "('v::times) heap"
  assumes mul_comm: "\<And>x y :: 'v. x * y = y * x"
  shows "dsp_mul_vect_float a b c n h = dsp_mul_vect_float a c b n h"
proof -
  have "(do { x \<leftarrow> load s (idx b i); y \<leftarrow> load s (idx c i); store s (idx a i) (x * y) })
      = (do { x \<leftarrow> load s (idx c i); y \<leftarrow> load s (idx b i); store s (idx a i) (x * y) })"
    for s :: "'v heap" and i
  proof (cases "load s (idx b i)")
    case None
    then show ?thesis by (cases "load s (idx c i)") simp_all
  next
    case (Some x)
    show ?thesis
    proof (cases "load s (idx c i)")
      case None
      with Some show ?thesis by simp
    next
      case (Some y)
      with \<open>load s (idx b i) = Some x\<close> mul_comm[of x y] show ?thesis by simp
    qed
  qed
  then show ?thesis by (simp add: dsp_mul_vect_float_def)
qed

lemma cmul_swap:
  fixes g :: "('v::{plus,minus,times}) dsp_complex_float_t heap"
  assumes mul_comm: "\<And>x y :: 'v. x * y = y * x"
    and add_comm: "\<And>x y :: 'v. x + y = y + x"
  shows "dsp_mul_vect_complex_float a b c n g = dsp_mul_vect_complex_float a c b n g"
proof -
  have second: "(do { bi' \<leftarrow> load s (idx b i); ci' \<leftarrow> load s (idx c i);
              store_im s (idx a i) (re bi' * im ci' + im bi' * re ci') })
      = (do { bi' \<leftarrow> load s (idx c i); ci' \<leftarrow> load s (idx b i);
              store_im s (idx a i) (re bi' * im ci' + im bi' * re ci') })"
    for s :: "'v dsp_complex_float_t heap" and i
  proof (cases "load s (idx b i)")
    case None
    then show ?thesis by (cases "load s (idx c i)") simp_all
  next
    case (Some x)
    show ?thesis
    proof (cases "load s (idx c i)")
      case None
      with Some show ?thesis by simp
    next
      case (Some y)
      have "re x * im y + im x * re y = re y * im x + im y * re x"
        by (simp only: mul_comm[of "re x" "im y"] mul_comm[of "im x" "re y"]
            add_comm[of "im y * re x" "re y * im x"])
      with \<open>load s (idx b i) = Some x\<close> Some show ?thesis by simp
    qed
  qed
  have "(do { bi \<leftarrow> load s (idx b i); ci \<leftarrow> load s (idx c i);
              h1 \<leftarrow> store_re s (idx a i) (re bi * re ci - im bi * im ci);
              bi' \<leftarrow> load h1 (idx b i); ci' \<leftarrow> load h1 (idx c i);
              store_im h1 (idx a i) (re bi' * im ci' + im bi' * re ci') })
      = (do { bi \<leftarrow> load s (idx c i); ci \<leftarrow> load s (idx b i);
              h1 \<leftarrow> store_re s (idx a i) (re bi * re ci - im bi * im ci);
              bi' \<leftarrow> load h1 (idx c i); ci' \<leftarrow> load h1 (idx b i);
              store_im h1 (idx a i) (re bi' * im ci' + im bi' * re ci') })"
    for s :: "'v dsp_complex_float_t heap" and i
  proof (cases "load s (idx b i)")
    case None
    then show ?thesis by (cases "load s (idx c i)") simp_all
  next
    case (Some x)
    show ?thesis
    proof (cases "load s (idx c i)")
      case None
      with Some show ?thesis by simp
    next
      case (Some y)
      have "re x * re y - im x * im y = re y * re x - im y * im x"
        by (simp only: mul_comm[of "re x" "re y"] mul_comm[of "im x" "im y"])
      with \<open>load s (idx b i) = Some x\<close> Some show ?thesis by (simp add: second)
    qed
  qed
  then show ?thesis by (simp add: dsp_mul_vect_complex_float_def)
qed

section \<open>The contracted kernel and the rounding\<close>

text \<open>
  Two checks on the definitions of contracted evaluation: an integer of at most 53 bits is
  its own rounding, and over exact operations the contracted kernel is the kernel as
  written, so the two differ by where results are rounded and by nothing else.
\<close>

lemma rne53_exact: "\<bar>x\<bar> < 9007199254740992 \<Longrightarrow> rne53 x = x"
proof -
  assume small: "\<bar>x\<bar> < 9007199254740992"
  have "rne53_mag m = m" if "m < 9007199254740992" for m
    using that by (simp add: rne53_mag_def excess.simps[of m])
  with small show ?thesis by (simp add: rne53_def)
qed

lemma fma_kernel_exact:
  fixes g :: "('v::ring) dsp_complex_float_t heap"
  shows "dsp_mul_vect_complex_float_fma (*) (\<lambda>x y z. x * y + z) uminus a b c n g
           = dsp_mul_vect_complex_float a b c n g"
  by (simp add: dsp_mul_vect_complex_float_fma_def dsp_mul_vect_complex_float_def)

section \<open>Zero length\<close>

lemma for_loop_zero: "for_loop body 0 0 s = Some s"
  by (simp add: for_loop.simps)

section \<open>The element-wise contract\<close>

text \<open>
  Claim C1 says that for every length \<open>n\<close> and complex input sequences of at least \<open>n\<close>
  elements \<^verbatim>\<open>dsp_mul_vect_complex_float\<close> writes, at each index, the real part
  \<open>b[i].re * c[i].re - b[i].im * c[i].im\<close> and the imaginary part
  \<open>b[i].re * c[i].im + b[i].im * c[i].re\<close>. It puts no condition on the output buffer, and
  with the output on top of \<open>b\<close> the imaginary part is another: \<open>b[0] = (1,2)\<close>,
  \<open>c[0] = (3,4)\<close> leaves \<open>(-5, -14)\<close>, where the two formulas give \<open>(-5, 10)\<close>.
\<close>

theorem C1_output_on_input_counterexample:
  "peek (dsp_mul_vect_complex_float 0 0 1 1
           [0 \<mapsto> \<lparr>re = 1, im = 2\<rparr>, 1 \<mapsto> \<lparr>re = 3, im = 4\<rparr>]) 0
     = Some \<lparr>re = - 5, im = - 14 :: real\<rparr>
   \<and> \<lparr>re = 1 * 3 - 2 * 4, im = 1 * 4 + 2 * 3\<rparr> = \<lparr>re = - 5, im = 10 :: real\<rparr>"
  by (simp add: peek_def dsp_mul_vect_complex_float_def for_loop.simps idx_def load_def
      store_re_def store_im_def)

text \<open>
  Claim C1, amended. For every length \<open>n\<close> and complex input sequences \<open>bs\<close>, \<open>cs\<close> of
  at least \<open>n\<close> elements, each held in the output buffer itself or in a buffer disjoint from
  it, \<^verbatim>\<open>dsp_mul_vect_complex_float\<close> returns and has written, for each index \<open>i\<close> in
  \<open>[0, n)\<close>, the real part \<open>b[i].re * c[i].re - b[i].im * c[i].im\<close>; and, when the output
  buffer is neither input buffer, the imaginary part \<open>b[i].re * c[i].im + b[i].im * c[i].re\<close>.
  The instance that follows the theorem is the known case \<open>b = [(1,2)]\<close>, \<open>c = [(3,4)]\<close>,
  \<open>n = 1\<close>, with output \<open>[(-5, 10)]\<close>.
\<close>

theorem C1_complex_multiply:
  fixes g :: "('v::{plus,minus,times}) dsp_complex_float_t heap"
  assumes "holds g b bs" and "holds g c cs" and "holds g a as"
    and "unat n \<le> length bs" and "unat n \<le> length cs" and "unat n \<le> length as"
    and "a = b \<or> disjoint_bufs a b n" and "a = c \<or> disjoint_bufs a c n"
  shows "\<exists>g'. dsp_mul_vect_complex_float a b c n g = Some g'
         \<and> (\<forall>i < unat n.
               map_option re (g' (a + i))
                 = Some (re (bs ! i) * re (cs ! i) - im (bs ! i) * im (cs ! i))
             \<and> (a \<noteq> b \<and> a \<noteq> c \<longrightarrow>
                  g' (a + i) =
                    Some \<lparr>re = re (bs ! i) * re (cs ! i) - im (bs ! i) * im (cs ! i),
                          im = re (bs ! i) * im (cs ! i) + im (bs ! i) * re (cs ! i)\<rparr>))"
proof -
  note pre = assms(1-6) same_or_disjoint[OF assms(7)] same_or_disjoint[OF assms(8)]
  from cmul_loop[OF pre] obtain g' where
    run: "dsp_mul_vect_complex_float a b c n g = Some g'"
    and g': "\<And>p. g' p = (if a \<le> p \<and> p < a + unat n
               then Some (let r = re (bs ! (p - a)) * re (cs ! (p - a)) - im (bs ! (p - a)) * im (cs ! (p - a))
                          in \<lparr>re = r,
                              im = (if a = b then r else re (bs ! (p - a))) * im (cs ! (p - a))
                                 + im (bs ! (p - a)) * (if a = c then r else re (cs ! (p - a)))\<rparr>)
               else g p)"
    by blast
  have "\<forall>i < unat n.
               map_option re (g' (a + i))
                 = Some (re (bs ! i) * re (cs ! i) - im (bs ! i) * im (cs ! i))
             \<and> (a \<noteq> b \<and> a \<noteq> c \<longrightarrow>
                  g' (a + i) =
                    Some \<lparr>re = re (bs ! i) * re (cs ! i) - im (bs ! i) * im (cs ! i),
                          im = re (bs ! i) * im (cs ! i) + im (bs ! i) * re (cs ! i)\<rparr>)"
    by (simp add: g' Let_def)
  with run show ?thesis by blast
qed

theorem C1_complex_multiply_witness:
  "holds [0 \<mapsto> \<lparr>re = 0, im = 0\<rparr>, 1 \<mapsto> \<lparr>re = 1, im = 2\<rparr>, 2 \<mapsto> \<lparr>re = 3, im = 4\<rparr>] 1 [\<lparr>re = 1, im = 2 :: real\<rparr>]
   \<and> holds [0 \<mapsto> \<lparr>re = 0, im = 0\<rparr>, 1 \<mapsto> \<lparr>re = 1, im = 2\<rparr>, 2 \<mapsto> \<lparr>re = 3, im = 4\<rparr>] 2 [\<lparr>re = 3, im = 4 :: real\<rparr>]
   \<and> holds [0 \<mapsto> \<lparr>re = 0, im = 0\<rparr>, 1 \<mapsto> \<lparr>re = 1, im = 2\<rparr>, 2 \<mapsto> \<lparr>re = 3, im = 4\<rparr>] 0 [\<lparr>re = 0, im = 0 :: real\<rparr>]
   \<and> disjoint_bufs 0 1 1 \<and> disjoint_bufs 0 2 1
   \<and> (\<exists>g'. dsp_mul_vect_complex_float 0 1 2 1
               [0 \<mapsto> \<lparr>re = 0, im = 0\<rparr>, 1 \<mapsto> \<lparr>re = 1, im = 2\<rparr>, 2 \<mapsto> \<lparr>re = 3, im = 4\<rparr>] = Some g'
           \<and> g' 0 = Some \<lparr>re = - 5, im = 10 :: real\<rparr>)"
proof -
  let ?g = "[0 \<mapsto> \<lparr>re = 0, im = 0\<rparr>, 1 \<mapsto> \<lparr>re = 1, im = 2\<rparr>, 2 \<mapsto> \<lparr>re = 3, im = 4 :: real\<rparr>]"
  have hyp: "holds ?g 1 [\<lparr>re = 1, im = 2\<rparr>]" "holds ?g 2 [\<lparr>re = 3, im = 4\<rparr>]"
    "holds ?g 0 [\<lparr>re = 0, im = 0\<rparr>]" "disjoint_bufs 0 1 1" "disjoint_bufs 0 2 1"
    by (simp_all add: disjoint_bufs_def)
  from C1_complex_multiply[of ?g 1 "[\<lparr>re = 1, im = 2\<rparr>]" 2 "[\<lparr>re = 3, im = 4\<rparr>]" 0 "[\<lparr>re = 0, im = 0\<rparr>]" 1] hyp
  obtain g' where "dsp_mul_vect_complex_float 0 1 2 1 ?g = Some g'"
    and "g' 0 = Some \<lparr>re = - 5, im = 10\<rparr>"
    by auto
  with hyp show ?thesis by blast
qed

text \<open>
  Claim C2. For every length \<open>n\<close> and real input sequences \<open>bs\<close>, \<open>cs\<close> of at least \<open>n\<close>
  elements, each held in a buffer that is the output buffer itself or disjoint from it, the
  three real kernels return and have written, for each index \<open>i\<close> in \<open>[0, n)\<close>,
  \<open>b[i] - c[i]\<close> (\<^verbatim>\<open>dsp_sub_vect_float\<close>), \<open>b[i] + c[i]\<close> (\<^verbatim>\<open>dsp_add_vect_float\<close>) and
  \<open>b[i] * c[i]\<close> (\<^verbatim>\<open>dsp_mul_vect_float\<close>); the first pointer is the output, the next two
  the inputs in that order.
\<close>

theorem C2_real_kernels:
  assumes "holds h b bs" and "holds h c cs" and "holds h a as"
    and "unat n \<le> length bs" and "unat n \<le> length cs" and "unat n \<le> length as"
    and "a = b \<or> disjoint_bufs a b n" and "a = c \<or> disjoint_bufs a c n"
  shows "\<exists>hs ha hm.
           dsp_sub_vect_float a b c n h = Some hs
         \<and> dsp_add_vect_float a b c n h = Some ha
         \<and> dsp_mul_vect_float a b c n h = Some hm
         \<and> (\<forall>i < unat n. hs (a + i) = Some (bs ! i - cs ! i)
                         \<and> ha (a + i) = Some (bs ! i + cs ! i)
                         \<and> hm (a + i) = Some (bs ! i * cs ! i))"
proof -
  note pre = assms(1-6) same_or_disjoint[OF assms(7)] same_or_disjoint[OF assms(8)]
  from sub_result[OF pre] obtain hs where
    hs: "dsp_sub_vect_float a b c n h = Some hs"
        "\<And>p. hs p = (if a \<le> p \<and> p < a + unat n then Some (bs ! (p - a) - cs ! (p - a)) else h p)"
    by blast
  from add_result[OF pre] obtain ha where
    ha: "dsp_add_vect_float a b c n h = Some ha"
        "\<And>p. ha p = (if a \<le> p \<and> p < a + unat n then Some (bs ! (p - a) + cs ! (p - a)) else h p)"
    by blast
  from mul_result[OF pre] obtain hm where
    hm: "dsp_mul_vect_float a b c n h = Some hm"
        "\<And>p. hm p = (if a \<le> p \<and> p < a + unat n then Some (bs ! (p - a) * cs ! (p - a)) else h p)"
    by blast
  have "\<forall>i < unat n. hs (a + i) = Some (bs ! i - cs ! i)
                         \<and> ha (a + i) = Some (bs ! i + cs ! i)
                         \<and> hm (a + i) = Some (bs ! i * cs ! i)"
    by (simp add: hs(2) ha(2) hm(2))
  with hs(1) ha(1) hm(1) show ?thesis by blast
qed

theorem C2_real_kernels_witness:
  "holds [0 \<mapsto> 0, 1 \<mapsto> 0, 2 \<mapsto> 5, 3 \<mapsto> 7, 4 \<mapsto> 2, 5 \<mapsto> 3] 2 [5, 7 :: real]
   \<and> holds [0 \<mapsto> 0, 1 \<mapsto> 0, 2 \<mapsto> 5, 3 \<mapsto> 7, 4 \<mapsto> 2, 5 \<mapsto> 3] 4 [2, 3 :: real]
   \<and> holds [0 \<mapsto> 0, 1 \<mapsto> 0, 2 \<mapsto> 5, 3 \<mapsto> 7, 4 \<mapsto> 2, 5 \<mapsto> 3] 0 [0, 0 :: real]
   \<and> disjoint_bufs 0 2 2 \<and> disjoint_bufs 0 4 2
   \<and> (\<exists>hs ha hm.
           dsp_sub_vect_float 0 2 4 2 [0 \<mapsto> 0, 1 \<mapsto> 0, 2 \<mapsto> 5, 3 \<mapsto> 7, 4 \<mapsto> 2, 5 \<mapsto> 3 :: real] = Some hs
         \<and> dsp_add_vect_float 0 2 4 2 [0 \<mapsto> 0, 1 \<mapsto> 0, 2 \<mapsto> 5, 3 \<mapsto> 7, 4 \<mapsto> 2, 5 \<mapsto> 3 :: real] = Some ha
         \<and> dsp_mul_vect_float 0 2 4 2 [0 \<mapsto> 0, 1 \<mapsto> 0, 2 \<mapsto> 5, 3 \<mapsto> 7, 4 \<mapsto> 2, 5 \<mapsto> 3 :: real] = Some hm
         \<and> hs 0 = Some 3 \<and> hs 1 = Some 4
         \<and> ha 0 = Some 7 \<and> ha 1 = Some 10
         \<and> hm 0 = Some 10 \<and> hm 1 = Some 21)"
proof -
  let ?h = "[0 \<mapsto> 0, 1 \<mapsto> 0, 2 \<mapsto> 5, 3 \<mapsto> 7, 4 \<mapsto> 2, 5 \<mapsto> 3 :: real]"
  have hyp: "holds ?h 2 [5, 7]" "holds ?h 4 [2, 3]" "holds ?h 0 [0, 0]"
    "disjoint_bufs 0 2 2" "disjoint_bufs 0 4 2"
    by (simp_all add: disjoint_bufs_def)
  from C2_real_kernels[of ?h 2 "[5, 7]" 4 "[2, 3]" 0 "[0, 0]" 2] hyp
  obtain hs ha hm where r: "dsp_sub_vect_float 0 2 4 2 ?h = Some hs"
       "dsp_add_vect_float 0 2 4 2 ?h = Some ha"
       "dsp_mul_vect_float 0 2 4 2 ?h = Some hm"
       "\<forall>i < 2. hs i = Some ([5, 7] ! i - [2, 3] ! i)
                         \<and> ha i = Some ([5, 7] ! i + [2, 3] ! i)
                         \<and> hm i = Some ([5, 7] ! i * [2, 3] ! i)"
    by auto
  from r(4) have "hs 0 = Some 3 \<and> hs 1 = Some 4
         \<and> ha 0 = Some 7 \<and> ha 1 = Some 10
         \<and> hm 0 = Some 10 \<and> hm 1 = Some 21"
    using spec[OF r(4), of 0] spec[OF r(4), of 1] by simp
  with r(1-3) hyp show ?thesis by blast
qed

section \<open>Output that is one of the inputs\<close>

text \<open>
  Claim C3 says that each of the four kernels, called with its output buffer being one of
  its input buffers, leaves at every index what the same call leaves in a fresh, disjoint
  output buffer. The complex kernel does not: with \<open>b[0] = (1,2)\<close>, \<open>c[0] = (3,4)\<close> and
  the output on top of \<open>b\<close> it leaves \<open>(-5, -14)\<close>, and \<open>(-5, 10)\<close> in a fresh buffer.
\<close>

theorem C3_complex_in_place_counterexample:
  "peek (dsp_mul_vect_complex_float 0 0 1 1
           [0 \<mapsto> \<lparr>re = 1, im = 2\<rparr>, 1 \<mapsto> \<lparr>re = 3, im = 4\<rparr>, 2 \<mapsto> \<lparr>re = 0, im = 0\<rparr>]) 0
     = Some \<lparr>re = - 5, im = - 14 :: real\<rparr>
   \<and> peek (dsp_mul_vect_complex_float 2 0 1 1
           [0 \<mapsto> \<lparr>re = 1, im = 2\<rparr>, 1 \<mapsto> \<lparr>re = 3, im = 4\<rparr>, 2 \<mapsto> \<lparr>re = 0, im = 0\<rparr>]) 2
     = Some \<lparr>re = - 5, im = 10 :: real\<rparr>"
  by (simp add: peek_def dsp_mul_vect_complex_float_def for_loop.simps idx_def load_def
      store_re_def store_im_def)

text \<open>
  Claim C3, amended. Called with the output buffer being one of the two input buffers
  (the other input being that same buffer or disjoint from it), each of the three real
  kernels leaves at every index in \<open>[0, n)\<close> what the same call leaves in a fresh, disjoint
  output buffer, \<^verbatim>\<open>dsp_add_vect_float(A, A, B, N)\<close> included; of the complex kernel this
  holds for the real component of every output element.
\<close>

theorem C3_in_place_amended:
  fixes h :: "('v::{plus,minus,times}) heap" and g :: "'v dsp_complex_float_t heap"
  assumes "holds h b bs" and "holds h c cs"
    and "unat n \<le> length bs" and "unat n \<le> length cs"
    and "holds h f fs" and "unat n \<le> length fs"
    and "holds g b xs" and "holds g c ys"
    and "unat n \<le> length xs" and "unat n \<le> length ys"
    and "holds g f zs" and "unat n \<le> length zs"
    and "a = b \<or> a = c"
    and "a = b \<or> disjoint_bufs a b n" and "a = c \<or> disjoint_bufs a c n"
    and "disjoint_bufs f b n" and "disjoint_bufs f c n"
  shows "\<exists>s1 s2 a1 a2 m1 m2 g1 g2.
           dsp_sub_vect_float a b c n h = Some s1 \<and> dsp_sub_vect_float f b c n h = Some s2
         \<and> dsp_add_vect_float a b c n h = Some a1 \<and> dsp_add_vect_float f b c n h = Some a2
         \<and> dsp_mul_vect_float a b c n h = Some m1 \<and> dsp_mul_vect_float f b c n h = Some m2
         \<and> dsp_mul_vect_complex_float a b c n g = Some g1
         \<and> dsp_mul_vect_complex_float f b c n g = Some g2
         \<and> (\<forall>i < unat n.
               s1 (a + i) = s2 (f + i) \<and> a1 (a + i) = a2 (f + i) \<and> m1 (a + i) = m2 (f + i)
             \<and> map_option re (g1 (a + i)) = map_option re (g2 (f + i)))"
proof -
  from assms(1-4,13) have "\<exists>as. holds h a as \<and> unat n \<le> length as" by auto
  then obtain as where ha: "holds h a as" and la: "unat n \<le> length as" by blast
  from assms(7-10,13) have "\<exists>ws. holds g a ws \<and> unat n \<le> length ws" by auto
  then obtain ws where ga: "holds g a ws" and lw: "unat n \<le> length ws" by blast
  note sa = same_or_disjoint[OF assms(14)] same_or_disjoint[OF assms(15)]
  note sf = disjoint_safe[OF assms(16)] disjoint_safe[OF assms(17)]
  note inpl = assms(1,2) ha assms(3,4) la sa
  note fresh = assms(1,2,5,3,4,6) sf
  from sub_result[OF inpl] obtain s1 where
    s1: "dsp_sub_vect_float a b c n h = Some s1"
        "\<And>p. s1 p = (if a \<le> p \<and> p < a + unat n then Some (bs ! (p - a) - cs ! (p - a)) else h p)"
    by blast
  from sub_result[OF fresh] obtain s2 where
    s2: "dsp_sub_vect_float f b c n h = Some s2"
        "\<And>p. s2 p = (if f \<le> p \<and> p < f + unat n then Some (bs ! (p - f) - cs ! (p - f)) else h p)"
    by blast
  from add_result[OF inpl] obtain a1 where
    a1: "dsp_add_vect_float a b c n h = Some a1"
        "\<And>p. a1 p = (if a \<le> p \<and> p < a + unat n then Some (bs ! (p - a) + cs ! (p - a)) else h p)"
    by blast
  from add_result[OF fresh] obtain a2 where
    a2: "dsp_add_vect_float f b c n h = Some a2"
        "\<And>p. a2 p = (if f \<le> p \<and> p < f + unat n then Some (bs ! (p - f) + cs ! (p - f)) else h p)"
    by blast
  from mul_result[OF inpl] obtain m1 where
    m1: "dsp_mul_vect_float a b c n h = Some m1"
        "\<And>p. m1 p = (if a \<le> p \<and> p < a + unat n then Some (bs ! (p - a) * cs ! (p - a)) else h p)"
    by blast
  from mul_result[OF fresh] obtain m2 where
    m2: "dsp_mul_vect_float f b c n h = Some m2"
        "\<And>p. m2 p = (if f \<le> p \<and> p < f + unat n then Some (bs ! (p - f) * cs ! (p - f)) else h p)"
    by blast
  from cmul_loop[OF assms(7,8) ga assms(9,10) lw sa] obtain g1 where
    g1: "dsp_mul_vect_complex_float a b c n g = Some g1"
        "\<And>p. g1 p = (if a \<le> p \<and> p < a + unat n
               then Some (let r = re (xs ! (p - a)) * re (ys ! (p - a)) - im (xs ! (p - a)) * im (ys ! (p - a))
                          in \<lparr>re = r,
                              im = (if a = b then r else re (xs ! (p - a))) * im (ys ! (p - a))
                                 + im (xs ! (p - a)) * (if a = c then r else re (ys ! (p - a)))\<rparr>)
               else g p)"
    by blast
  from cmul_loop[OF assms(7,8,11,9,10,12) sf] obtain g2 where
    g2: "dsp_mul_vect_complex_float f b c n g = Some g2"
        "\<And>p. g2 p = (if f \<le> p \<and> p < f + unat n
               then Some (let r = re (xs ! (p - f)) * re (ys ! (p - f)) - im (xs ! (p - f)) * im (ys ! (p - f))
                          in \<lparr>re = r,
                              im = (if f = b then r else re (xs ! (p - f))) * im (ys ! (p - f))
                                 + im (xs ! (p - f)) * (if f = c then r else re (ys ! (p - f)))\<rparr>)
               else g p)"
    by blast
  have "\<forall>i < unat n.
               s1 (a + i) = s2 (f + i) \<and> a1 (a + i) = a2 (f + i) \<and> m1 (a + i) = m2 (f + i)
             \<and> map_option re (g1 (a + i)) = map_option re (g2 (f + i))"
    by (simp add: s1(2) s2(2) a1(2) a2(2) m1(2) m2(2) g1(2) g2(2) Let_def)
  with s1(1) s2(1) a1(1) a2(1) m1(1) m2(1) g1(1) g2(1) show ?thesis by blast
qed

theorem C3_in_place_amended_witness:
  "holds [0 \<mapsto> 6, 1 \<mapsto> 2, 2 \<mapsto> 0] 0 [6 :: real]
   \<and> holds [0 \<mapsto> 6, 1 \<mapsto> 2, 2 \<mapsto> 0] 1 [2 :: real]
   \<and> holds [0 \<mapsto> 6, 1 \<mapsto> 2, 2 \<mapsto> 0] 2 [0 :: real]
   \<and> holds [0 \<mapsto> \<lparr>re = 1, im = 2\<rparr>, 1 \<mapsto> \<lparr>re = 3, im = 4\<rparr>, 2 \<mapsto> \<lparr>re = 0, im = 0\<rparr>] 0 [\<lparr>re = 1, im = 2 :: real\<rparr>]
   \<and> holds [0 \<mapsto> \<lparr>re = 1, im = 2\<rparr>, 1 \<mapsto> \<lparr>re = 3, im = 4\<rparr>, 2 \<mapsto> \<lparr>re = 0, im = 0\<rparr>] 1 [\<lparr>re = 3, im = 4 :: real\<rparr>]
   \<and> holds [0 \<mapsto> \<lparr>re = 1, im = 2\<rparr>, 1 \<mapsto> \<lparr>re = 3, im = 4\<rparr>, 2 \<mapsto> \<lparr>re = 0, im = 0\<rparr>] 2 [\<lparr>re = 0, im = 0 :: real\<rparr>]
   \<and> disjoint_bufs 0 1 1 \<and> disjoint_bufs 2 0 1 \<and> disjoint_bufs 2 1 1
   \<and> (\<exists>s1 s2 a1 a2 m1 m2 g1 g2.
           dsp_sub_vect_float 0 0 1 1 [0 \<mapsto> 6, 1 \<mapsto> 2, 2 \<mapsto> 0 :: real] = Some s1
         \<and> dsp_sub_vect_float 2 0 1 1 [0 \<mapsto> 6, 1 \<mapsto> 2, 2 \<mapsto> 0 :: real] = Some s2
         \<and> dsp_add_vect_float 0 0 1 1 [0 \<mapsto> 6, 1 \<mapsto> 2, 2 \<mapsto> 0 :: real] = Some a1
         \<and> dsp_add_vect_float 2 0 1 1 [0 \<mapsto> 6, 1 \<mapsto> 2, 2 \<mapsto> 0 :: real] = Some a2
         \<and> dsp_mul_vect_float 0 0 1 1 [0 \<mapsto> 6, 1 \<mapsto> 2, 2 \<mapsto> 0 :: real] = Some m1
         \<and> dsp_mul_vect_float 2 0 1 1 [0 \<mapsto> 6, 1 \<mapsto> 2, 2 \<mapsto> 0 :: real] = Some m2
         \<and> dsp_mul_vect_complex_float 0 0 1 1
              [0 \<mapsto> \<lparr>re = 1, im = 2\<rparr>, 1 \<mapsto> \<lparr>re = 3, im = 4\<rparr>, 2 \<mapsto> \<lparr>re = 0, im = 0 :: real\<rparr>] = Some g1
         \<and> dsp_mul_vect_complex_float 2 0 1 1
              [0 \<mapsto> \<lparr>re = 1, im = 2\<rparr>, 1 \<mapsto> \<lparr>re = 3, im = 4\<rparr>, 2 \<mapsto> \<lparr>re = 0, im = 0 :: real\<rparr>] = Some g2
         \<and> s1 0 = s2 2 \<and> a1 0 = a2 2 \<and> m1 0 = m2 2
         \<and> map_option re (g1 0) = map_option re (g2 2))"
proof -
  let ?h = "[0 \<mapsto> 6, 1 \<mapsto> 2, 2 \<mapsto> 0 :: real]"
  let ?g = "[0 \<mapsto> \<lparr>re = 1, im = 2\<rparr>, 1 \<mapsto> \<lparr>re = 3, im = 4\<rparr>, 2 \<mapsto> \<lparr>re = 0, im = 0 :: real\<rparr>]"
  have hyp: "holds ?h 0 [6]" "holds ?h 1 [2]" "holds ?h 2 [0]"
    "holds ?g 0 [\<lparr>re = 1, im = 2\<rparr>]" "holds ?g 1 [\<lparr>re = 3, im = 4\<rparr>]" "holds ?g 2 [\<lparr>re = 0, im = 0\<rparr>]"
    by simp_all
  have dis: "disjoint_bufs 0 1 1" "disjoint_bufs 2 0 1" "disjoint_bufs 2 1 1"
    by (simp_all add: disjoint_bufs_def)
  from C3_in_place_amended[OF hyp(1,2) _ _ hyp(3) _ hyp(4,5) _ _ hyp(6), of 1 0] dis
  obtain s1 s2 a1 a2 m1 m2 g1 g2 where r:
    "dsp_sub_vect_float 0 0 1 1 ?h = Some s1" "dsp_sub_vect_float 2 0 1 1 ?h = Some s2"
    "dsp_add_vect_float 0 0 1 1 ?h = Some a1" "dsp_add_vect_float 2 0 1 1 ?h = Some a2"
    "dsp_mul_vect_float 0 0 1 1 ?h = Some m1" "dsp_mul_vect_float 2 0 1 1 ?h = Some m2"
    "dsp_mul_vect_complex_float 0 0 1 1 ?g = Some g1"
    "dsp_mul_vect_complex_float 2 0 1 1 ?g = Some g2"
    "s1 0 = s2 2 \<and> a1 0 = a2 2 \<and> m1 0 = m2 2 \<and> map_option re (g1 0) = map_option re (g2 2)"
    by auto
  with hyp dis show ?thesis by blast
qed

text \<open>
  Claim C9. For each of the three real kernels, an output buffer that is the buffer of
  either input (\<open>a = b\<close> or \<open>a = c\<close>) receives at every index the result a fresh buffer
  receives: in both, element \<open>i\<close> is the operator applied to the two input elements at
  \<open>i\<close> as they were before the call, since iteration \<open>i\<close> reads both before it writes and
  no later iteration reads index \<open>i\<close>.
\<close>

theorem C9_real_in_place:
  fixes h :: "('v::{plus,minus,times}) heap"
  assumes "holds h b bs" and "holds h c cs"
    and "unat n \<le> length bs" and "unat n \<le> length cs"
    and "a = b \<or> a = c"
    and "a = b \<or> disjoint_bufs a b n" and "a = c \<or> disjoint_bufs a c n"
    and "holds h f fs" and "unat n \<le> length fs"
    and "disjoint_bufs f b n" and "disjoint_bufs f c n"
  shows "\<exists>s1 s2 a1 a2 m1 m2.
           dsp_sub_vect_float a b c n h = Some s1 \<and> dsp_sub_vect_float f b c n h = Some s2
         \<and> dsp_add_vect_float a b c n h = Some a1 \<and> dsp_add_vect_float f b c n h = Some a2
         \<and> dsp_mul_vect_float a b c n h = Some m1 \<and> dsp_mul_vect_float f b c n h = Some m2
         \<and> (\<forall>i < unat n.
               s1 (a + i) = Some (bs ! i - cs ! i) \<and> s2 (f + i) = Some (bs ! i - cs ! i)
             \<and> a1 (a + i) = Some (bs ! i + cs ! i) \<and> a2 (f + i) = Some (bs ! i + cs ! i)
             \<and> m1 (a + i) = Some (bs ! i * cs ! i) \<and> m2 (f + i) = Some (bs ! i * cs ! i))"
proof -
  from assms(1-5) have "\<exists>as. holds h a as \<and> unat n \<le> length as" by auto
  then obtain as where ha: "holds h a as" and la: "unat n \<le> length as" by blast
  note inpl = assms(1,2) ha assms(3,4) la same_or_disjoint[OF assms(6)] same_or_disjoint[OF assms(7)]
  note fresh = assms(1,2,8,3,4,9) disjoint_safe[OF assms(10)] disjoint_safe[OF assms(11)]
  from sub_result[OF inpl] obtain s1 where
    s1: "dsp_sub_vect_float a b c n h = Some s1"
        "\<And>p. s1 p = (if a \<le> p \<and> p < a + unat n then Some (bs ! (p - a) - cs ! (p - a)) else h p)"
    by blast
  from sub_result[OF fresh] obtain s2 where
    s2: "dsp_sub_vect_float f b c n h = Some s2"
        "\<And>p. s2 p = (if f \<le> p \<and> p < f + unat n then Some (bs ! (p - f) - cs ! (p - f)) else h p)"
    by blast
  from add_result[OF inpl] obtain a1 where
    a1: "dsp_add_vect_float a b c n h = Some a1"
        "\<And>p. a1 p = (if a \<le> p \<and> p < a + unat n then Some (bs ! (p - a) + cs ! (p - a)) else h p)"
    by blast
  from add_result[OF fresh] obtain a2 where
    a2: "dsp_add_vect_float f b c n h = Some a2"
        "\<And>p. a2 p = (if f \<le> p \<and> p < f + unat n then Some (bs ! (p - f) + cs ! (p - f)) else h p)"
    by blast
  from mul_result[OF inpl] obtain m1 where
    m1: "dsp_mul_vect_float a b c n h = Some m1"
        "\<And>p. m1 p = (if a \<le> p \<and> p < a + unat n then Some (bs ! (p - a) * cs ! (p - a)) else h p)"
    by blast
  from mul_result[OF fresh] obtain m2 where
    m2: "dsp_mul_vect_float f b c n h = Some m2"
        "\<And>p. m2 p = (if f \<le> p \<and> p < f + unat n then Some (bs ! (p - f) * cs ! (p - f)) else h p)"
    by blast
  have "\<forall>i < unat n.
               s1 (a + i) = Some (bs ! i - cs ! i) \<and> s2 (f + i) = Some (bs ! i - cs ! i)
             \<and> a1 (a + i) = Some (bs ! i + cs ! i) \<and> a2 (f + i) = Some (bs ! i + cs ! i)
             \<and> m1 (a + i) = Some (bs ! i * cs ! i) \<and> m2 (f + i) = Some (bs ! i * cs ! i)"
    by (simp add: s1(2) s2(2) a1(2) a2(2) m1(2) m2(2))
  with s1(1) s2(1) a1(1) a2(1) m1(1) m2(1) show ?thesis by blast
qed

theorem C9_real_in_place_witness:
  "holds [0 \<mapsto> 6, 1 \<mapsto> 8, 2 \<mapsto> 2, 3 \<mapsto> 4, 4 \<mapsto> 0, 5 \<mapsto> 0] 0 [6, 8 :: real]
   \<and> holds [0 \<mapsto> 6, 1 \<mapsto> 8, 2 \<mapsto> 2, 3 \<mapsto> 4, 4 \<mapsto> 0, 5 \<mapsto> 0] 2 [2, 4 :: real]
   \<and> holds [0 \<mapsto> 6, 1 \<mapsto> 8, 2 \<mapsto> 2, 3 \<mapsto> 4, 4 \<mapsto> 0, 5 \<mapsto> 0] 4 [0, 0 :: real]
   \<and> disjoint_bufs 0 2 2 \<and> disjoint_bufs 4 0 2 \<and> disjoint_bufs 4 2 2
   \<and> (\<exists>s1 s2 a1 a2 m1 m2.
           dsp_sub_vect_float 0 0 2 2 [0 \<mapsto> 6, 1 \<mapsto> 8, 2 \<mapsto> 2, 3 \<mapsto> 4, 4 \<mapsto> 0, 5 \<mapsto> 0 :: real] = Some s1
         \<and> dsp_sub_vect_float 4 0 2 2 [0 \<mapsto> 6, 1 \<mapsto> 8, 2 \<mapsto> 2, 3 \<mapsto> 4, 4 \<mapsto> 0, 5 \<mapsto> 0 :: real] = Some s2
         \<and> dsp_add_vect_float 0 0 2 2 [0 \<mapsto> 6, 1 \<mapsto> 8, 2 \<mapsto> 2, 3 \<mapsto> 4, 4 \<mapsto> 0, 5 \<mapsto> 0 :: real] = Some a1
         \<and> dsp_add_vect_float 4 0 2 2 [0 \<mapsto> 6, 1 \<mapsto> 8, 2 \<mapsto> 2, 3 \<mapsto> 4, 4 \<mapsto> 0, 5 \<mapsto> 0 :: real] = Some a2
         \<and> dsp_mul_vect_float 0 0 2 2 [0 \<mapsto> 6, 1 \<mapsto> 8, 2 \<mapsto> 2, 3 \<mapsto> 4, 4 \<mapsto> 0, 5 \<mapsto> 0 :: real] = Some m1
         \<and> dsp_mul_vect_float 4 0 2 2 [0 \<mapsto> 6, 1 \<mapsto> 8, 2 \<mapsto> 2, 3 \<mapsto> 4, 4 \<mapsto> 0, 5 \<mapsto> 0 :: real] = Some m2
         \<and> s1 0 = Some 4 \<and> s2 4 = Some 4 \<and> s1 1 = Some 4 \<and> s2 5 = Some 4
         \<and> a1 0 = Some 8 \<and> a2 4 = Some 8 \<and> a1 1 = Some 12 \<and> a2 5 = Some 12
         \<and> m1 0 = Some 12 \<and> m2 4 = Some 12 \<and> m1 1 = Some 32 \<and> m2 5 = Some 32)"
proof -
  let ?h = "[0 \<mapsto> 6, 1 \<mapsto> 8, 2 \<mapsto> 2, 3 \<mapsto> 4, 4 \<mapsto> 0, 5 \<mapsto> 0 :: real]"
  have hyp: "holds ?h 0 [6, 8]" "holds ?h 2 [2, 4]" "holds ?h 4 [0, 0]"
    by simp_all
  have dis: "disjoint_bufs 0 2 2" "disjoint_bufs 4 0 2" "disjoint_bufs 4 2 2"
    by (simp_all add: disjoint_bufs_def)
  from C9_real_in_place[of ?h 0 "[6, 8]" 2 "[2, 4]" 2 0 4 "[0, 0]"] hyp dis
  obtain s1 s2 a1 a2 m1 m2 where r:
    "dsp_sub_vect_float 0 0 2 2 ?h = Some s1" "dsp_sub_vect_float 4 0 2 2 ?h = Some s2"
    "dsp_add_vect_float 0 0 2 2 ?h = Some a1" "dsp_add_vect_float 4 0 2 2 ?h = Some a2"
    "dsp_mul_vect_float 0 0 2 2 ?h = Some m1" "dsp_mul_vect_float 4 0 2 2 ?h = Some m2"
    and v: "\<forall>i < unat (2 :: 32 word).
               s1 (0 + i) = Some ([6, 8] ! i - [2, 4] ! i) \<and> s2 (4 + i) = Some ([6, 8] ! i - [2, 4] ! i)
             \<and> a1 (0 + i) = Some ([6, 8] ! i + [2, 4] ! i) \<and> a2 (4 + i) = Some ([6, 8] ! i + [2, 4] ! i)
             \<and> m1 (0 + i) = Some ([6, 8] ! i * [2, 4] ! i) \<and> m2 (4 + i) = Some ([6, 8] ! i * [2, 4] ! i)"
    by auto
  have "s1 0 = Some 4 \<and> s2 4 = Some 4 \<and> s1 1 = Some 4 \<and> s2 5 = Some 4
         \<and> a1 0 = Some 8 \<and> a2 4 = Some 8 \<and> a1 1 = Some 12 \<and> a2 5 = Some 12
         \<and> m1 0 = Some 12 \<and> m2 4 = Some 12 \<and> m1 1 = Some 32 \<and> m2 5 = Some 32"
    using spec[OF v, of 0] spec[OF v, of 1] by simp
  with r hyp dis show ?thesis by blast
qed

text \<open>
  Claim C10 says that in \<^verbatim>\<open>dsp_mul_vect_complex_float\<close> the real field of output element
  \<open>i\<close> is assigned first and the imaginary expression reads \<open>b[i].re\<close> and \<open>c[i].re\<close>
  after that, so that with the output on top of \<open>b\<close> the imaginary part is
  \<open>(b[i].re * c[i].re - b[i].im * c[i].im) * c[i].im + b[i].im * c[i].re\<close> and with the
  output on top of \<open>c\<close> it is
  \<open>b[i].re * c[i].im + b[i].im * (b[i].re * c[i].re - b[i].im * c[i].im)\<close>. It puts no
  condition on the other input. Where all three pointers are one buffer both real fields
  read are the new one: \<open>(1,2)\<close> squared in place leaves \<open>(-3, -12)\<close>, and each formula of
  the claim gives \<open>-4\<close>.
\<close>

theorem C10_all_one_buffer_counterexample:
  "peek (dsp_mul_vect_complex_float 0 0 0 1 [0 \<mapsto> \<lparr>re = 1, im = 2\<rparr>]) 0
     = Some \<lparr>re = - 3, im = - 12 :: real\<rparr>
   \<and> (1 * 1 - 2 * 2) * 2 + 2 * 1 = (- 4 :: real)
   \<and> 1 * 2 + 2 * (1 * 1 - 2 * 2) = (- 4 :: real)"
  by (simp add: peek_def dsp_mul_vect_complex_float_def for_loop.simps idx_def load_def
      store_re_def store_im_def)

text \<open>
  Claim C10, amended. In \<^verbatim>\<open>dsp_mul_vect_complex_float\<close> the real field of output element
  \<open>i\<close> is assigned first and the imaginary expression reads \<open>b[i].re\<close> and \<open>c[i].re\<close>
  after that. With \<open>r = b[i].re * c[i].re - b[i].im * c[i].im\<close> of the elements before the
  call, the imaginary part written is \<open>r * c[i].im + b[i].im * c[i].re\<close> when the output is
  the buffer of \<open>b\<close> and \<open>c\<close> is a disjoint buffer, \<open>b[i].re * c[i].im + b[i].im * r\<close> when
  the output is the buffer of \<open>c\<close> and \<open>b\<close> is a disjoint buffer, and
  \<open>r * c[i].im + b[i].im * r\<close> when all three are one buffer.
\<close>

theorem C10_complex_in_place:
  fixes g :: "('v::{plus,minus,times}) dsp_complex_float_t heap"
  assumes "holds g b bs" and "holds g c cs"
    and "unat n \<le> length bs" and "unat n \<le> length cs"
    and "a = b \<or> a = c"
    and "a = b \<or> disjoint_bufs a b n" and "a = c \<or> disjoint_bufs a c n"
  shows "\<exists>g'. dsp_mul_vect_complex_float a b c n g = Some g'
         \<and> (\<forall>i < unat n. g' (a + i) =
               Some \<lparr>re = re (bs ! i) * re (cs ! i) - im (bs ! i) * im (cs ! i),
                     im = (if a = b \<and> a = c
                           then (re (bs ! i) * re (cs ! i) - im (bs ! i) * im (cs ! i)) * im (cs ! i)
                                + im (bs ! i) * (re (bs ! i) * re (cs ! i) - im (bs ! i) * im (cs ! i))
                           else if a = b
                           then (re (bs ! i) * re (cs ! i) - im (bs ! i) * im (cs ! i)) * im (cs ! i)
                                + im (bs ! i) * re (cs ! i)
                           else re (bs ! i) * im (cs ! i)
                                + im (bs ! i) * (re (bs ! i) * re (cs ! i) - im (bs ! i) * im (cs ! i)))\<rparr>)"
proof -
  from assms(1-5) have "\<exists>as. holds g a as \<and> unat n \<le> length as" by auto
  then obtain as where ha: "holds g a as" and la: "unat n \<le> length as" by blast
  from cmul_loop[OF assms(1,2) ha assms(3,4) la same_or_disjoint[OF assms(6)] same_or_disjoint[OF assms(7)]]
  obtain g' where
    run: "dsp_mul_vect_complex_float a b c n g = Some g'"
    and g': "\<And>p. g' p = (if a \<le> p \<and> p < a + unat n
               then Some (let r = re (bs ! (p - a)) * re (cs ! (p - a)) - im (bs ! (p - a)) * im (cs ! (p - a))
                          in \<lparr>re = r,
                              im = (if a = b then r else re (bs ! (p - a))) * im (cs ! (p - a))
                                 + im (bs ! (p - a)) * (if a = c then r else re (cs ! (p - a)))\<rparr>)
               else g p)"
    by blast
  have "\<forall>i < unat n. g' (a + i) =
               Some \<lparr>re = re (bs ! i) * re (cs ! i) - im (bs ! i) * im (cs ! i),
                     im = (if a = b \<and> a = c
                           then (re (bs ! i) * re (cs ! i) - im (bs ! i) * im (cs ! i)) * im (cs ! i)
                                + im (bs ! i) * (re (bs ! i) * re (cs ! i) - im (bs ! i) * im (cs ! i))
                           else if a = b
                           then (re (bs ! i) * re (cs ! i) - im (bs ! i) * im (cs ! i)) * im (cs ! i)
                                + im (bs ! i) * re (cs ! i)
                           else re (bs ! i) * im (cs ! i)
                                + im (bs ! i) * (re (bs ! i) * re (cs ! i) - im (bs ! i) * im (cs ! i)))\<rparr>"
    using assms(5) by (auto simp: g' Let_def)
  with run show ?thesis by blast
qed

theorem C10_complex_in_place_witness:
  "holds [0 \<mapsto> \<lparr>re = 1, im = 2\<rparr>, 1 \<mapsto> \<lparr>re = 3, im = 4\<rparr>] 0 [\<lparr>re = 1, im = 2 :: real\<rparr>]
   \<and> holds [0 \<mapsto> \<lparr>re = 1, im = 2\<rparr>, 1 \<mapsto> \<lparr>re = 3, im = 4\<rparr>] 1 [\<lparr>re = 3, im = 4 :: real\<rparr>]
   \<and> disjoint_bufs 0 1 1
   \<and> (\<exists>g'. dsp_mul_vect_complex_float 0 0 1 1
               [0 \<mapsto> \<lparr>re = 1, im = 2\<rparr>, 1 \<mapsto> \<lparr>re = 3, im = 4\<rparr>] = Some g'
           \<and> g' 0 = Some \<lparr>re = - 5, im = - 14 :: real\<rparr>)
   \<and> (\<exists>g'. dsp_mul_vect_complex_float 1 0 1 1
               [0 \<mapsto> \<lparr>re = 1, im = 2\<rparr>, 1 \<mapsto> \<lparr>re = 3, im = 4\<rparr>] = Some g'
           \<and> g' 1 = Some \<lparr>re = - 5, im = - 6 :: real\<rparr>)
   \<and> (\<exists>g'. dsp_mul_vect_complex_float 0 0 0 1
               [0 \<mapsto> \<lparr>re = 1, im = 2\<rparr>, 1 \<mapsto> \<lparr>re = 3, im = 4\<rparr>] = Some g'
           \<and> g' 0 = Some \<lparr>re = - 3, im = - 12 :: real\<rparr>)"
proof -
  let ?g = "[0 \<mapsto> \<lparr>re = 1, im = 2\<rparr>, 1 \<mapsto> \<lparr>re = 3, im = 4 :: real\<rparr>]"
  have hyp: "holds ?g 0 [\<lparr>re = 1, im = 2\<rparr>]" "holds ?g 1 [\<lparr>re = 3, im = 4\<rparr>]" "disjoint_bufs 0 1 1"
    by (simp_all add: disjoint_bufs_def)
  have dis': "disjoint_bufs 1 0 1" by (simp add: disjoint_bufs_def)
  from C10_complex_in_place[of ?g 0 "[\<lparr>re = 1, im = 2\<rparr>]" 1 "[\<lparr>re = 3, im = 4\<rparr>]" 1 0] hyp
  have on_b: "\<exists>g'. dsp_mul_vect_complex_float 0 0 1 1 ?g = Some g'
           \<and> g' 0 = Some \<lparr>re = - 5, im = - 14\<rparr>"
    by auto
  from C10_complex_in_place[of ?g 0 "[\<lparr>re = 1, im = 2\<rparr>]" 1 "[\<lparr>re = 3, im = 4\<rparr>]" 1 1] hyp dis'
  have on_c: "\<exists>g'. dsp_mul_vect_complex_float 1 0 1 1 ?g = Some g'
           \<and> g' 1 = Some \<lparr>re = - 5, im = - 6\<rparr>"
    by auto
  from C10_complex_in_place[of ?g 0 "[\<lparr>re = 1, im = 2\<rparr>]" 0 "[\<lparr>re = 1, im = 2\<rparr>]" 1 0] hyp
  have on_both: "\<exists>g'. dsp_mul_vect_complex_float 0 0 0 1 ?g = Some g'
           \<and> g' 0 = Some \<lparr>re = - 3, im = - 12\<rparr>"
    by auto
  from hyp on_b on_c on_both show ?thesis by blast
qed

section \<open>Algebraic properties\<close>

text \<open>
  Claim C4. For all real sequences \<open>A\<close> and \<open>B\<close> of equal length \<open>n\<close>,
  \<^verbatim>\<open>dsp_add_vect_float\<close> on \<open>A\<close> and \<open>B\<close> followed by \<^verbatim>\<open>dsp_sub_vect_float\<close> on the
  result and \<open>B\<close> recovers \<open>A\<close> at every index, in any sample arithmetic that is exact in
  the sense that \<open>(x + y) - y = x\<close>, as the reals are. The intermediate buffer may be the
  buffer of \<open>A\<close>, and the final buffer may be the intermediate one or that of \<open>B\<close>.
\<close>

theorem C4_add_sub_round_trip:
  fixes h :: "('v::{plus,minus}) heap"
  assumes exact: "\<And>x y :: 'v. (x + y) - y = x"
    and "holds h pa A" and "holds h pb B"
    and "length A = unat n" and "length B = unat n"
    and "holds h r rs" and "unat n \<le> length rs"
    and "r = pa \<or> disjoint_bufs r pa n" and "disjoint_bufs r pb n"
    and "holds h q qs" and "unat n \<le> length qs"
    and "q = r \<or> disjoint_bufs q r n" and "q = pb \<or> disjoint_bufs q pb n"
  shows "\<exists>h1 h2. dsp_add_vect_float r pa pb n h = Some h1
              \<and> dsp_sub_vect_float q r pb n h1 = Some h2
              \<and> (\<forall>i < unat n. h2 (q + i) = Some (A ! i))"
proof -
  have lens: "unat n \<le> length A" "unat n \<le> length B"
    using assms(4,5) by simp_all
  from add_result[OF assms(2,3,6) lens assms(7) same_or_disjoint[OF assms(8)] disjoint_safe[OF assms(9)]]
  obtain h1 where
    run1: "dsp_add_vect_float r pa pb n h = Some h1"
    and h1: "\<And>p. h1 p = (if r \<le> p \<and> p < r + unat n then Some (A ! (p - r) + B ! (p - r)) else h p)"
    by blast
  define R where "R = map (\<lambda>k. A ! k + B ! k) [0..<unat n]"
  define Q where "Q = map (\<lambda>k. the (h1 (q + k))) [0..<unat n]"
  have hr: "holds h1 r R"
    by (simp add: holds_nth R_def h1)
  have hb: "holds h1 pb B"
  proof -
    have "h1 (pb + k) = Some (B ! k)" if "k < unat n" for k
    proof -
      from assms(9) that have "\<not> (r \<le> pb + k \<and> pb + k < r + unat n)"
        by (auto simp: disjoint_bufs_def)
      then have "h1 (pb + k) = h (pb + k)" by (simp only: h1 if_False)
      with assms(3,5) that show ?thesis by (simp add: holds_nth)
    qed
    with assms(5) show ?thesis by (simp add: holds_nth)
  qed
  have hq: "holds h1 q Q"
  proof -
    have "h1 (q + k) \<noteq> None" if "k < unat n" for k
    proof -
      from assms(10,11) that have "h (q + k) \<noteq> None"
        by (intro holds_allocated[of h q qs]) simp_all
      then show ?thesis by (simp add: h1)
    qed
    then show ?thesis by (auto simp: holds_nth Q_def)
  qed
  have lens1: "unat n \<le> length R" "unat n \<le> length B" "unat n \<le> length Q"
    using assms(5) by (simp_all add: R_def Q_def)
  from sub_result[OF hr hb hq lens1 same_or_disjoint[OF assms(12)] same_or_disjoint[OF assms(13)]]
  obtain h2 where
    run2: "dsp_sub_vect_float q r pb n h1 = Some h2"
    and h2: "\<And>p. h2 p = (if q \<le> p \<and> p < q + unat n then Some (R ! (p - q) - B ! (p - q)) else h1 p)"
    by blast
  have "\<forall>i < unat n. h2 (q + i) = Some (A ! i)"
    by (simp add: h2 R_def exact)
  with run1 run2 show ?thesis by blast
qed

theorem C4_add_sub_round_trip_witness:
  "holds [0 \<mapsto> 3 / 2, 1 \<mapsto> - 2, 2 \<mapsto> 10, 3 \<mapsto> 1 / 4] 0 [3 / 2, - 2 :: real]
   \<and> holds [0 \<mapsto> 3 / 2, 1 \<mapsto> - 2, 2 \<mapsto> 10, 3 \<mapsto> 1 / 4] 2 [10, 1 / 4 :: real]
   \<and> disjoint_bufs 0 2 2
   \<and> (\<exists>h1 h2. dsp_add_vect_float 0 0 2 2 [0 \<mapsto> 3 / 2, 1 \<mapsto> - 2, 2 \<mapsto> 10, 3 \<mapsto> 1 / 4 :: real] = Some h1
              \<and> dsp_sub_vect_float 0 0 2 2 h1 = Some h2
              \<and> h2 0 = Some (3 / 2) \<and> h2 1 = Some (- 2))"
proof -
  let ?h = "[0 \<mapsto> 3 / 2, 1 \<mapsto> - 2, 2 \<mapsto> 10, 3 \<mapsto> 1 / 4 :: real]"
  let ?A = "[3 / 2, - 2 :: real]"
  let ?B = "[10, 1 / 4 :: real]"
  have hyp: "holds ?h 0 ?A" "holds ?h 2 ?B" "disjoint_bufs 0 2 2"
    by (simp_all add: disjoint_bufs_def)
  have exact: "\<And>x y :: real. (x + y) - y = x" by simp
  from C4_add_sub_round_trip[of ?h 0 ?A 2 ?B 2 0 ?A 0 ?A, OF exact] hyp
  obtain h1 h2 where r: "dsp_add_vect_float 0 0 2 2 ?h = Some h1"
    "dsp_sub_vect_float 0 0 2 2 h1 = Some h2"
    "\<forall>i < unat (2 :: 32 word). h2 (0 + i) = Some (?A ! i)"
    by auto
  have "h2 0 = Some (3 / 2) \<and> h2 1 = Some (- 2)"
    using spec[OF r(3), of 0] spec[OF r(3), of 1] by simp
  with r(1,2) hyp show ?thesis by blast
qed

text \<open>
  Claim C5 says that both multiplies give the same result element-wise when their two
  inputs are exchanged, floating-point results included. The real kernel has one product
  per element. The complex kernel has \<^verbatim>\<open>b[i].re * c[i].im + b[i].im * c[i].re\<close>, and in a
  contracted build the exchange moves the unrounded product to the other term: in binary64,
  \<open>b[0] = (2^30 + 1, -2^60)\<close> and \<open>c[0] = (1, 2^30 + 1)\<close> give the imaginary part
  \<open>2147483649\<close>, and \<open>2147483648\<close> with \<open>b\<close> and \<open>c\<close> exchanged.
\<close>

theorem C5_contracted_swap_counterexample:
  "peek (dsp_mul_vect_complex_float_fma b64_mul b64_fma uminus 0 1 2 1
           [0 \<mapsto> \<lparr>re = 0, im = 0\<rparr>, 1 \<mapsto> \<lparr>re = 1073741825, im = - 1152921504606846976\<rparr>,
            2 \<mapsto> \<lparr>re = 1, im = 1073741825\<rparr>]) 0
     = Some \<lparr>re = 1237940040438301779505971200, im = 2147483649\<rparr>
   \<and> peek (dsp_mul_vect_complex_float_fma b64_mul b64_fma uminus 0 2 1 1
           [0 \<mapsto> \<lparr>re = 0, im = 0\<rparr>, 1 \<mapsto> \<lparr>re = 1073741825, im = - 1152921504606846976\<rparr>,
            2 \<mapsto> \<lparr>re = 1, im = 1073741825\<rparr>]) 0
     = Some \<lparr>re = 1237940040438301779505971200, im = 2147483648\<rparr>"
  by (simp add: peek_def dsp_mul_vect_complex_float_fma_def for_loop.simps idx_def load_def
      store_re_def store_im_def b64_mul_def b64_fma_def rne53_def rne53_mag_def excess.simps Let_def)

text \<open>
  Claim C5, amended. Where multiplication and addition of samples are commutative and
  every \<open>*\<close>, \<open>+\<close> and \<open>-\<close> of the source is evaluated as one operation (no contraction into
  a fused multiply-add), \<^verbatim>\<open>dsp_mul_vect_float\<close> on \<open>(b, c)\<close> and on \<open>(c, b)\<close> both return
  and agree at every index of the output, and so do \<^verbatim>\<open>dsp_mul_vect_complex_float\<close> on
  \<open>(b, c)\<close> and on \<open>(c, b)\<close>. Nothing but the two commutative laws is asked of the
  arithmetic, so it may round.
\<close>

theorem C5_multiply_commutes:
  fixes h :: "('v::{plus,minus,times}) heap" and g :: "'v dsp_complex_float_t heap"
  assumes mul_comm: "\<And>x y :: 'v. x * y = y * x"
    and add_comm: "\<And>x y :: 'v. x + y = y + x"
    and "holds h b bs" and "holds h c cs" and "holds h a as"
    and "unat n \<le> length bs" and "unat n \<le> length cs" and "unat n \<le> length as"
    and "holds g b xs" and "holds g c ys" and "holds g a zs"
    and "unat n \<le> length xs" and "unat n \<le> length ys" and "unat n \<le> length zs"
  shows "\<exists>h1 h2 g1 g2.
           dsp_mul_vect_float a b c n h = Some h1 \<and> dsp_mul_vect_float a c b n h = Some h2
         \<and> dsp_mul_vect_complex_float a b c n g = Some g1
         \<and> dsp_mul_vect_complex_float a c b n g = Some g2
         \<and> (\<forall>i < unat n. h1 (a + i) = h2 (a + i) \<and> g1 (a + i) = g2 (a + i))"
proof -
  from mul_frame[OF assms(3-8)] obtain h1 where h1: "dsp_mul_vect_float a b c n h = Some h1"
    by blast
  from cmul_frame[OF assms(9-14)] obtain g1 where g1: "dsp_mul_vect_complex_float a b c n g = Some g1"
    by blast
  from h1 have h2: "dsp_mul_vect_float a c b n h = Some h1"
    by (simp add: mul_swap[OF mul_comm, of a c b n h])
  from g1 have g2: "dsp_mul_vect_complex_float a c b n g = Some g1"
    by (simp add: cmul_swap[OF mul_comm add_comm, of a c b n g])
  from h1 h2 g1 g2 show ?thesis by simp
qed

theorem C5_multiply_commutes_witness:
  "holds [0 \<mapsto> 0, 1 \<mapsto> 3, 2 \<mapsto> 1 / 2] 1 [3 :: real]
   \<and> holds [0 \<mapsto> 0, 1 \<mapsto> 3, 2 \<mapsto> 1 / 2] 2 [1 / 2 :: real]
   \<and> holds [0 \<mapsto> 0, 1 \<mapsto> 3, 2 \<mapsto> 1 / 2] 0 [0 :: real]
   \<and> holds [0 \<mapsto> \<lparr>re = 0, im = 0\<rparr>, 1 \<mapsto> \<lparr>re = 1, im = 2\<rparr>, 2 \<mapsto> \<lparr>re = 3, im = 4\<rparr>] 1 [\<lparr>re = 1, im = 2 :: real\<rparr>]
   \<and> holds [0 \<mapsto> \<lparr>re = 0, im = 0\<rparr>, 1 \<mapsto> \<lparr>re = 1, im = 2\<rparr>, 2 \<mapsto> \<lparr>re = 3, im = 4\<rparr>] 2 [\<lparr>re = 3, im = 4 :: real\<rparr>]
   \<and> holds [0 \<mapsto> \<lparr>re = 0, im = 0\<rparr>, 1 \<mapsto> \<lparr>re = 1, im = 2\<rparr>, 2 \<mapsto> \<lparr>re = 3, im = 4\<rparr>] 0 [\<lparr>re = 0, im = 0 :: real\<rparr>]
   \<and> (\<exists>h1 h2 g1 g2.
           dsp_mul_vect_float 0 1 2 1 [0 \<mapsto> 0, 1 \<mapsto> 3, 2 \<mapsto> 1 / 2 :: real] = Some h1
         \<and> dsp_mul_vect_float 0 2 1 1 [0 \<mapsto> 0, 1 \<mapsto> 3, 2 \<mapsto> 1 / 2 :: real] = Some h2
         \<and> dsp_mul_vect_complex_float 0 1 2 1
              [0 \<mapsto> \<lparr>re = 0, im = 0\<rparr>, 1 \<mapsto> \<lparr>re = 1, im = 2\<rparr>, 2 \<mapsto> \<lparr>re = 3, im = 4 :: real\<rparr>] = Some g1
         \<and> dsp_mul_vect_complex_float 0 2 1 1
              [0 \<mapsto> \<lparr>re = 0, im = 0\<rparr>, 1 \<mapsto> \<lparr>re = 1, im = 2\<rparr>, 2 \<mapsto> \<lparr>re = 3, im = 4 :: real\<rparr>] = Some g2
         \<and> h1 0 = h2 0 \<and> g1 0 = g2 0)"
proof -
  let ?h = "[0 \<mapsto> 0, 1 \<mapsto> 3, 2 \<mapsto> 1 / 2 :: real]"
  let ?g = "[0 \<mapsto> \<lparr>re = 0, im = 0\<rparr>, 1 \<mapsto> \<lparr>re = 1, im = 2\<rparr>, 2 \<mapsto> \<lparr>re = 3, im = 4 :: real\<rparr>]"
  have hyp: "holds ?h 1 [3]" "holds ?h 2 [1 / 2]" "holds ?h 0 [0]"
    "holds ?g 1 [\<lparr>re = 1, im = 2\<rparr>]" "holds ?g 2 [\<lparr>re = 3, im = 4\<rparr>]" "holds ?g 0 [\<lparr>re = 0, im = 0\<rparr>]"
    by simp_all
  have laws: "\<And>x y :: real. x * y = y * x" "\<And>x y :: real. x + y = y + x"
    by simp_all
  from C5_multiply_commutes[OF laws hyp(1-3) _ _ _ hyp(4-6), of 1]
  obtain h1 h2 g1 g2 where r: "dsp_mul_vect_float 0 1 2 1 ?h = Some h1"
    "dsp_mul_vect_float 0 2 1 1 ?h = Some h2"
    "dsp_mul_vect_complex_float 0 1 2 1 ?g = Some g1"
    "dsp_mul_vect_complex_float 0 2 1 1 ?g = Some g2"
    "h1 0 = h2 0 \<and> g1 0 = g2 0"
    by auto
  with hyp show ?thesis by blast
qed




section \<open>Frame\<close>

text \<open>
  Claim C7. Called with length zero, each of the four kernels completes and hands back
  the store it was given: no cell of the output buffer or of either input buffer is
  written, whatever the three pointers are.
\<close>

theorem C7_zero_length_noop:
  "dsp_sub_vect_float a b c 0 h = Some h
   \<and> dsp_add_vect_float a b c 0 h = Some h
   \<and> dsp_mul_vect_float a b c 0 h = Some h
   \<and> dsp_mul_vect_complex_float a b c 0 g = Some g"
  by (simp add: dsp_sub_vect_float_def dsp_add_vect_float_def dsp_mul_vect_float_def
      dsp_mul_vect_complex_float_def for_loop_zero)

text \<open>
  Claim C8. A call of any of the four kernels with length \<open>n\<close> on allocated buffers
  returns a store that differs from the one it was given in the first \<open>n\<close> elements of the
  output buffer at most: every cell outside them is unchanged, in particular the output
  elements at index \<open>n\<close> and beyond, and both input buffers when the output buffer is
  disjoint from them; no cell is allocated or freed. The kernels are functions of the
  pointers, the length and the store, and the returned store is their only effect.
\<close>

theorem C8_frame:
  fixes h :: "('v::{plus,minus,times}) heap" and g :: "'v dsp_complex_float_t heap"
  assumes "holds h b bs" and "holds h c cs" and "holds h a as"
    and "unat n \<le> length bs" and "unat n \<le> length cs" and "unat n \<le> length as"
    and "holds g b xs" and "holds g c ys" and "holds g a zs"
    and "unat n \<le> length xs" and "unat n \<le> length ys" and "unat n \<le> length zs"
  shows "\<exists>hs ha hm g'.
           dsp_sub_vect_float a b c n h = Some hs
         \<and> dsp_add_vect_float a b c n h = Some ha
         \<and> dsp_mul_vect_float a b c n h = Some hm
         \<and> dsp_mul_vect_complex_float a b c n g = Some g'
         \<and> (\<forall>p. p < a \<or> a + unat n \<le> p \<longrightarrow>
                 hs p = h p \<and> ha p = h p \<and> hm p = h p \<and> g' p = g p)
         \<and> (\<forall>j. unat n \<le> j \<longrightarrow>
                 hs (a + j) = h (a + j) \<and> ha (a + j) = h (a + j)
               \<and> hm (a + j) = h (a + j) \<and> g' (a + j) = g (a + j))
         \<and> (disjoint_bufs a b n \<and> disjoint_bufs a c n \<longrightarrow>
               (\<forall>k < unat n.
                   hs (b + k) = h (b + k) \<and> hs (c + k) = h (c + k)
                 \<and> ha (b + k) = h (b + k) \<and> ha (c + k) = h (c + k)
                 \<and> hm (b + k) = h (b + k) \<and> hm (c + k) = h (c + k)
                 \<and> g' (b + k) = g (b + k) \<and> g' (c + k) = g (c + k)))
         \<and> (\<forall>p. (hs p = None) = (h p = None) \<and> (ha p = None) = (h p = None)
                \<and> (hm p = None) = (h p = None) \<and> (g' p = None) = (g p = None))"
proof -
  from sub_frame[OF assms(1-6)] obtain hs where
    hs: "dsp_sub_vect_float a b c n h = Some hs"
        "\<And>p. (hs p = None) = (h p = None)"
        "\<And>p. p < a \<or> a + unat n \<le> p \<Longrightarrow> hs p = h p"
    by blast
  from add_frame[OF assms(1-6)] obtain ha where
    ha: "dsp_add_vect_float a b c n h = Some ha"
        "\<And>p. (ha p = None) = (h p = None)"
        "\<And>p. p < a \<or> a + unat n \<le> p \<Longrightarrow> ha p = h p"
    by blast
  from mul_frame[OF assms(1-6)] obtain hm where
    hm: "dsp_mul_vect_float a b c n h = Some hm"
        "\<And>p. (hm p = None) = (h p = None)"
        "\<And>p. p < a \<or> a + unat n \<le> p \<Longrightarrow> hm p = h p"
    by blast
  from cmul_frame[OF assms(7-12)] obtain g' where
    g': "dsp_mul_vect_complex_float a b c n g = Some g'"
        "\<And>p. (g' p = None) = (g p = None)"
        "\<And>p. p < a \<or> a + unat n \<le> p \<Longrightarrow> g' p = g p"
    by blast
  have outside: "\<forall>p. p < a \<or> a + unat n \<le> p \<longrightarrow>
                 hs p = h p \<and> ha p = h p \<and> hm p = h p \<and> g' p = g p"
    using hs(3) ha(3) hm(3) g'(3) by blast
  have beyond: "\<forall>j. unat n \<le> j \<longrightarrow>
                 hs (a + j) = h (a + j) \<and> ha (a + j) = h (a + j)
               \<and> hm (a + j) = h (a + j) \<and> g' (a + j) = g (a + j)"
    using hs(3) ha(3) hm(3) g'(3) by simp
  have out: "q + k < a \<or> a + unat n \<le> q + k" if "disjoint_bufs a q n" and "k < unat n" for q k
    using that by (auto simp: disjoint_bufs_def)
  have inputs: "disjoint_bufs a b n \<and> disjoint_bufs a c n \<longrightarrow>
               (\<forall>k < unat n.
                   hs (b + k) = h (b + k) \<and> hs (c + k) = h (c + k)
                 \<and> ha (b + k) = h (b + k) \<and> ha (c + k) = h (c + k)
                 \<and> hm (b + k) = h (b + k) \<and> hm (c + k) = h (c + k)
                 \<and> g' (b + k) = g (b + k) \<and> g' (c + k) = g (c + k))"
    using hs(3) ha(3) hm(3) g'(3) out by blast
  have alloc: "\<forall>p. (hs p = None) = (h p = None) \<and> (ha p = None) = (h p = None)
                \<and> (hm p = None) = (h p = None) \<and> (g' p = None) = (g p = None)"
    using hs(2) ha(2) hm(2) g'(2) by blast
  from hs(1) ha(1) hm(1) g'(1) outside beyond inputs alloc show ?thesis by blast
qed

theorem C8_frame_witness:
  "holds [0 \<mapsto> 0, 1 \<mapsto> 9, 2 \<mapsto> 5, 3 \<mapsto> 7] 2 [5 :: real]
   \<and> holds [0 \<mapsto> 0, 1 \<mapsto> 9, 2 \<mapsto> 5, 3 \<mapsto> 7] 3 [7 :: real]
   \<and> holds [0 \<mapsto> 0, 1 \<mapsto> 9, 2 \<mapsto> 5, 3 \<mapsto> 7] 0 [0, 9 :: real]
   \<and> holds [0 \<mapsto> \<lparr>re = 0, im = 0\<rparr>, 1 \<mapsto> \<lparr>re = 9, im = 8\<rparr>, 2 \<mapsto> \<lparr>re = 1, im = 2\<rparr>, 3 \<mapsto> \<lparr>re = 3, im = 4\<rparr>]
        2 [\<lparr>re = 1, im = 2 :: real\<rparr>]
   \<and> holds [0 \<mapsto> \<lparr>re = 0, im = 0\<rparr>, 1 \<mapsto> \<lparr>re = 9, im = 8\<rparr>, 2 \<mapsto> \<lparr>re = 1, im = 2\<rparr>, 3 \<mapsto> \<lparr>re = 3, im = 4\<rparr>]
        3 [\<lparr>re = 3, im = 4 :: real\<rparr>]
   \<and> holds [0 \<mapsto> \<lparr>re = 0, im = 0\<rparr>, 1 \<mapsto> \<lparr>re = 9, im = 8\<rparr>, 2 \<mapsto> \<lparr>re = 1, im = 2\<rparr>, 3 \<mapsto> \<lparr>re = 3, im = 4\<rparr>]
        0 [\<lparr>re = 0, im = 0 :: real\<rparr>, \<lparr>re = 9, im = 8\<rparr>]
   \<and> disjoint_bufs 0 2 1 \<and> disjoint_bufs 0 3 1
   \<and> (\<exists>hs ha hm g'.
           dsp_sub_vect_float 0 2 3 1 [0 \<mapsto> 0, 1 \<mapsto> 9, 2 \<mapsto> 5, 3 \<mapsto> 7 :: real] = Some hs
         \<and> dsp_add_vect_float 0 2 3 1 [0 \<mapsto> 0, 1 \<mapsto> 9, 2 \<mapsto> 5, 3 \<mapsto> 7 :: real] = Some ha
         \<and> dsp_mul_vect_float 0 2 3 1 [0 \<mapsto> 0, 1 \<mapsto> 9, 2 \<mapsto> 5, 3 \<mapsto> 7 :: real] = Some hm
         \<and> dsp_mul_vect_complex_float 0 2 3 1
              [0 \<mapsto> \<lparr>re = 0, im = 0\<rparr>, 1 \<mapsto> \<lparr>re = 9, im = 8\<rparr>, 2 \<mapsto> \<lparr>re = 1, im = 2\<rparr>, 3 \<mapsto> \<lparr>re = 3, im = 4 :: real\<rparr>]
              = Some g'
         \<and> hs 1 = Some 9 \<and> hs 2 = Some 5 \<and> hs 3 = Some 7 \<and> hs 4 = None
         \<and> ha 1 = Some 9 \<and> ha 2 = Some 5 \<and> ha 3 = Some 7 \<and> ha 4 = None
         \<and> hm 1 = Some 9 \<and> hm 2 = Some 5 \<and> hm 3 = Some 7 \<and> hm 4 = None
         \<and> g' 1 = Some \<lparr>re = 9, im = 8\<rparr> \<and> g' 2 = Some \<lparr>re = 1, im = 2\<rparr>
         \<and> g' 3 = Some \<lparr>re = 3, im = 4\<rparr> \<and> g' 4 = None)"
proof -
  let ?h = "[0 \<mapsto> 0, 1 \<mapsto> 9, 2 \<mapsto> 5, 3 \<mapsto> 7 :: real]"
  let ?g = "[0 \<mapsto> \<lparr>re = 0, im = 0\<rparr>, 1 \<mapsto> \<lparr>re = 9, im = 8\<rparr>, 2 \<mapsto> \<lparr>re = 1, im = 2\<rparr>, 3 \<mapsto> \<lparr>re = 3, im = 4 :: real\<rparr>]"
  have hyp: "holds ?h 2 [5]" "holds ?h 3 [7]" "holds ?h 0 [0, 9]"
    "holds ?g 2 [\<lparr>re = 1, im = 2\<rparr>]" "holds ?g 3 [\<lparr>re = 3, im = 4\<rparr>]"
    "holds ?g 0 [\<lparr>re = 0, im = 0\<rparr>, \<lparr>re = 9, im = 8\<rparr>]"
    by simp_all
  have dis: "disjoint_bufs 0 2 1" "disjoint_bufs 0 3 1"
    by (simp_all add: disjoint_bufs_def)
  from C8_frame[OF hyp(1-3) _ _ _ hyp(4-6), of 1]
  obtain hs ha hm g' where r: "dsp_sub_vect_float 0 2 3 1 ?h = Some hs"
    "dsp_add_vect_float 0 2 3 1 ?h = Some ha"
    "dsp_mul_vect_float 0 2 3 1 ?h = Some hm"
    "dsp_mul_vect_complex_float 0 2 3 1 ?g = Some g'"
    and outside: "\<forall>p. p < 0 \<or> 0 + unat (1 :: 32 word) \<le> p \<longrightarrow>
                 hs p = ?h p \<and> ha p = ?h p \<and> hm p = ?h p \<and> g' p = ?g p"
    by auto
  have "hs 1 = Some 9 \<and> hs 2 = Some 5 \<and> hs 3 = Some 7 \<and> hs 4 = None
         \<and> ha 1 = Some 9 \<and> ha 2 = Some 5 \<and> ha 3 = Some 7 \<and> ha 4 = None
         \<and> hm 1 = Some 9 \<and> hm 2 = Some 5 \<and> hm 3 = Some 7 \<and> hm 4 = None
         \<and> g' 1 = Some \<lparr>re = 9, im = 8\<rparr> \<and> g' 2 = Some \<lparr>re = 1, im = 2\<rparr>
         \<and> g' 3 = Some \<lparr>re = 3, im = 4\<rparr> \<and> g' 4 = None"
    using spec[OF outside, of 1] spec[OF outside, of 2] spec[OF outside, of 3] spec[OF outside, of 4]
    by simp
  with r hyp dis show ?thesis by blast
qed

end
